theory Spec2Isabelle
  imports Main
begin

section \<open>Ot2Rec reconstruction stage: record reconciliation and execution loop\<close>

text \<open>
  A shallow embedding of \<^verbatim>\<open>src/Ot2Rec/recon.py\<close> (class \<^verbatim>\<open>Recon\<close>).
  The class keeps its tables in pandas data frames. A frame is modelled as the list of its
  rows in order, each row carrying its index label, because the source selects rows with
  boolean series that pandas aligns by label, not by position.

  Tilt-series numbers are integers. The function \<^verbatim>\<open>read_md_yaml\<close> that reads the stored
  record is not defined in \<^verbatim>\<open>metadata.py\<close>: the frame it yields is part of the world the
  constructor is run in. The messages sent to the logger, the progress bar, the text of
  the directive file and the command line of the external tool are left out; the tool is
  a function from the tilt series and the files on disk to its result.
\<close>

subsection \<open>Rows, frames, errors\<close>

text \<open>One row of \<^verbatim>\<open>_recon_images\<close> and of \<^verbatim>\<open>meta_out\<close>: the columns
  \<^verbatim>\<open>ts\<close>, \<^verbatim>\<open>align_output\<close>, \<^verbatim>\<open>recon_output\<close>.\<close>

datatype row = Row (ts: int) (align_output: string) (recon_output: string)

type_synonym frame = "(nat \<times> row) list"

text \<open>The exceptions the modelled statements can raise: the \<^verbatim>\<open>ValueError\<close> of
  \<^verbatim>\<open>recon_stack\<close> (with the return code and the tilt series of its message), and the two
  pandas errors of the selections and merges in \<^verbatim>\<open>_check_reconned_images\<close>.\<close>

datatype error = ValueError int int | IndexingError | MergeError

definition record_columns :: "string list" where
  "record_columns = [''ts'', ''align_output'', ''recon_output'']"

definition rows :: "frame \<Rightarrow> row list" where
  "rows f = map snd f"

definition labels :: "frame \<Rightarrow> nat list" where
  "labels f = map fst f"

text \<open>\<^verbatim>\<open>ignore_index=True\<close>: the rows are relabelled 0, 1, 2, ...\<close>

definition ignore_index :: "row list \<Rightarrow> frame" where
  "ignore_index rs = zip [0 ..< length rs] rs"

text \<open>\<^verbatim>\<open>Series.unique()\<close> and \<^verbatim>\<open>DataFrame.drop_duplicates()\<close> keep the first
  occurrence of each value and the order of what they keep; a dropped row takes its label
  with it, the labels of the others stay.\<close>

primrec keep_first :: "'a list \<Rightarrow> 'a list \<Rightarrow> 'a list" where
  "keep_first seen [] = []"
| "keep_first seen (x # xs) =
     (if x \<in> set seen then keep_first seen xs else x # keep_first (x # seen) xs)"

definition unique :: "'a list \<Rightarrow> 'a list" where
  "unique xs = keep_first [] xs"

primrec drop_dups :: "row list \<Rightarrow> frame \<Rightarrow> frame" where
  "drop_dups seen [] = []"
| "drop_dups seen (x # xs) =
     (if snd x \<in> set seen then drop_dups seen xs else x # drop_dups (snd x # seen) xs)"

definition drop_duplicates :: "frame \<Rightarrow> frame" where
  "drop_duplicates f = drop_dups [] f"

text \<open>The column \<^verbatim>\<open>_merge == 'left_only'\<close> of
  \<^verbatim>\<open>left.merge(right, how='left', indicator=True)\<close> joined on all three columns: the
  result keeps the order of the left rows; a left row without an equal right row appears
  once, marked \<^verbatim>\<open>left_only\<close>, a left row with k equal right rows appears k times, marked
  \<^verbatim>\<open>both\<close>. The merged frame has a fresh index 0, 1, 2, ...\<close>

primrec merge_left_only :: "row list \<Rightarrow> row list \<Rightarrow> bool list" where
  "merge_left_only [] right = []"
| "merge_left_only (r # left) right =
     (let k = length (filter (\<lambda>q. q = r) right)
      in (if k = 0 then [True] else replicate k False) @ merge_left_only left right)"

text \<open>\<^verbatim>\<open>frame[key]\<close> for a boolean series \<^verbatim>\<open>key\<close> with index 0, 1, 2, ...: pandas
  looks every label of the frame up in the series; a label the series does not have raises
  \<^verbatim>\<open>IndexingError\<close> (unalignable boolean series), otherwise the rows whose label is
  marked true are kept.\<close>

definition bool_index :: "frame \<Rightarrow> bool list \<Rightarrow> error + frame" where
  "bool_index f key =
     (if list_all (\<lambda>x. fst x < length key) f
      then Inr (filter (\<lambda>x. key ! fst x) f)
      else Inl IndexingError)"

subsection \<open>Path derivation\<close>

text \<open>\<^verbatim>\<open>s.endswith(c)\<close> for a one-character \<^verbatim>\<open>c\<close>, and
  \<^verbatim>\<open>if s.endswith(c): s = s[:-1]\<close>.\<close>

definition ends_with :: "char \<Rightarrow> string \<Rightarrow> bool" where
  "ends_with c s = (s \<noteq> [] \<and> last s = c)"

definition strip_trailing :: "char \<Rightarrow> string \<Rightarrow> string" where
  "strip_trailing c s = (if ends_with c s then butlast s else s)"

definition digit_char :: "nat \<Rightarrow> char" where
  "digit_char d = ''0123456789'' ! (d mod 10)"

fun decimal :: "nat \<Rightarrow> string" where
  "decimal n = (if n < 10 then [digit_char n] else decimal (n div 10) @ [digit_char (n mod 10)])"

declare decimal.simps [simp del]

text \<open>The format \<^verbatim>\<open>{curr_ts:02d}\<close>: at least two characters, padded with zeros after the
  sign. A negative number already has two characters.\<close>

definition format_02d :: "int \<Rightarrow> string" where
  "format_02d i =
     (if i < 0 then CHR ''-'' # decimal (nat (- i))
      else if i < 10 then CHR ''0'' # decimal (nat i)
      else decimal (nat i))"

definition subfolder_of :: "string \<Rightarrow> string \<Rightarrow> string \<Rightarrow> int \<Rightarrow> string" where
  "subfolder_of b r sf t = b @ ''/'' @ r @ ''_'' @ format_02d t @ sf"

definition recon_row :: "string \<Rightarrow> string \<Rightarrow> string \<Rightarrow> int \<Rightarrow> row" where
  "recon_row b r sf t =
     (let subfolder = subfolder_of b r sf t
      in Row t
           (subfolder @ ''/'' @ r @ ''_'' @ format_02d t @ sf @ ''_ali.mrc'')
           (subfolder @ ''/'' @ r @ ''_'' @ format_02d t @ sf @ ''_rec.mrc''))"

subsection \<open>Parameters, the world, the object\<close>

text \<open>\<^verbatim>\<open>params['System']\<close>.\<close>

record params =
  output_path :: string
  output_rootname :: string
  output_suffix :: string
  System_process_list :: "int list"

text \<open>What the class reads and writes outside itself: the regular files
  (\<^verbatim>\<open>os.path.isfile\<close>), the directories made by \<^verbatim>\<open>os.makedirs\<close>, the frame serialised
  in \<^verbatim>\<open><proj>_recon_mdout.yaml\<close> (\<open>None\<close> when that file does not exist), and the tilt
  series on which the external tool has been run, oldest first.\<close>

record world =
  files :: "string set"
  dirs :: "string set"
  mdout :: "frame option"
  calls :: "int list"

record recon =
  basis_folder :: string
  rootname :: string
  suffix :: string
  path_dict :: "(int \<times> string) list"
  recon_images :: frame
  meta_out :: frame
  no_processes :: bool
  process_list :: "int list"
  stdout :: "string option"

definition isfile :: "world \<Rightarrow> string \<Rightarrow> bool" where
  "isfile w p = (p \<in> files w)"

subsection \<open>\<^verbatim>\<open>_get_internal_metadata\<close> (lines 66-98)\<close>

definition makedirs :: "string \<Rightarrow> world \<Rightarrow> world" where
  "makedirs d w = w\<lparr>dirs := insert d (dirs w)\<rparr>"

text \<open>\<^verbatim>\<open>d[k] = v\<close> on a dictionary kept as the list of its items in insertion order.\<close>

fun dict_set :: "'k \<Rightarrow> 'v \<Rightarrow> ('k \<times> 'v) list \<Rightarrow> ('k \<times> 'v) list" where
  "dict_set k v [] = [(k, v)]"
| "dict_set k v ((k', v') # d) = (if k = k' then (k, v) # d else (k', v') # dict_set k v d)"

text \<open>The first loop (lines 84-87) makes the directory of each tilt series and stores it in
  \<^verbatim>\<open>_path_dict\<close>; the second (lines 90-98) builds \<^verbatim>\<open>_recon_images\<close>. Only the
  directory itself is recorded in the world, not the parents \<^verbatim>\<open>os.makedirs\<close> may create
  on the way.\<close>

definition get_internal_metadata ::
  "params \<Rightarrow> world \<Rightarrow> (string \<times> string \<times> string \<times> (int \<times> string) list \<times> frame) \<times> world" where
  "get_internal_metadata p w =
     (let b = strip_trailing (CHR ''/'') (output_path p);
          r = strip_trailing (CHR ''_'') (output_rootname p);
          sf = strip_trailing (CHR ''_'') (output_suffix p);
          w' = fold (\<lambda>t. makedirs (subfolder_of b r sf t)) (System_process_list p) w;
          pd = fold (\<lambda>t. dict_set t (subfolder_of b r sf t)) (System_process_list p) [];
          ri = ignore_index (map (recon_row b r sf) (System_process_list p))
      in ((b, r, sf, pd, ri), w'))"

text \<open>The row that lines 90-98 append for one tilt series of the process list.\<close>

definition expected_row :: "params \<Rightarrow> int \<Rightarrow> row" where
  "expected_row p t =
     recon_row (strip_trailing (CHR ''/'') (output_path p))
       (strip_trailing (CHR ''_'') (output_rootname p))
       (strip_trailing (CHR ''_'') (output_suffix p)) t"

subsection \<open>\<^verbatim>\<open>_check_reconned_images\<close> (lines 101-143)\<close>

text \<open>Lines 105-115: the record is empty when the file does not exist, else the frame read
  from it; duplicated rows are dropped.\<close>

definition stored_frame :: "world \<Rightarrow> frame" where
  "stored_frame w = (case mdout w of None \<Rightarrow> [] | Some f \<Rightarrow> f)"

definition load_record :: "world \<Rightarrow> frame" where
  "load_record w = drop_duplicates (stored_frame w)"

text \<open>Lines 119-131. \<open>mc\<close> stands for \<^verbatim>\<open>self.meta.columns\<close>, the columns of the input
  metadata handed to the constructor: \<^verbatim>\<open>_missing_specified\<close> starts as an empty frame
  with these columns and gains the record's columns with the first append, so with an empty
  process list the merge has only the columns shared with \<open>mc\<close> to join on, and pandas
  raises \<^verbatim>\<open>MergeError\<close> when there is none.\<close>

definition prune_record :: "string list \<Rightarrow> int list \<Rightarrow> world \<Rightarrow> frame \<Rightarrow> error + frame" where
  "prune_record mc pl w mo =
     (if 0 < length mo then
        let missing = filter (\<lambda>x. \<not> isfile w (recon_output (snd x))) mo;
            missing_specified = concat (map (\<lambda>t. filter (\<lambda>r. ts r = t) (rows missing)) pl)
        in if pl = [] \<and> \<not> list_ex (\<lambda>c. c \<in> set mc) record_columns then Inl MergeError
           else bool_index mo (merge_left_only (rows mo) missing_specified)
      else Inr mo)"

text \<open>Lines 133-143.\<close>

definition prune_work_list :: "recon \<Rightarrow> error + recon" where
  "prune_work_list s =
     (let ri = recon_images s;
          ignored = filter (\<lambda>x. recon_output (snd x) \<in> set (map recon_output (rows (meta_out s)))) ri;
          np = (if 0 < length ignored \<and> length ignored < length ri then no_processes s
                else if length ignored = length ri then True
                else no_processes s)
      in case bool_index ri (merge_left_only (rows ri) (rows ignored)) of
           Inl e \<Rightarrow> Inl e
         | Inr ri' \<Rightarrow>
             Inr (s\<lparr>recon_images := ri', no_processes := np,
                    process_list := unique (sort (map ts (rows ri')))\<rparr>))"

definition check_reconned_images :: "string list \<Rightarrow> params \<Rightarrow> world \<Rightarrow> recon \<Rightarrow> error + recon" where
  "check_reconned_images mc p w s =
     (case prune_record mc (System_process_list p) w (load_record w) of
        Inl e \<Rightarrow> Inl e
      | Inr mo \<Rightarrow> prune_work_list (s\<lparr>meta_out := mo\<rparr>))"

subsection \<open>\<^verbatim>\<open>__init__\<close> (lines 33-63)\<close>

definition Recon_init :: "string list \<Rightarrow> params \<Rightarrow> world \<Rightarrow> (error + recon) \<times> world" where
  "Recon_init mc p w =
     (case get_internal_metadata p w of
        ((b, r, sf, pd, ri), w') \<Rightarrow>
          (check_reconned_images mc p w'
             \<lparr>basis_folder = b, rootname = r, suffix = sf, path_dict = pd,
              recon_images = ri, meta_out = [],
              no_processes = False, process_list = System_process_list p, stdout = None\<rparr>,
           w'))"

subsection \<open>\<^verbatim>\<open>update_recon_metadata\<close>, \<^verbatim>\<open>export_metadata\<close>, \<^verbatim>\<open>recon_stack\<close>\<close>

text \<open>Lines 262-276.\<close>

definition update_recon_metadata :: "world \<Rightarrow> recon \<Rightarrow> recon" where
  "update_recon_metadata w s =
     s\<lparr>meta_out :=
          drop_duplicates
            (ignore_index (rows (meta_out s)
               @ rows (filter (\<lambda>x. isfile w (recon_output (snd x))) (recon_images s)))),
       recon_images := filter (\<lambda>x. \<not> isfile w (recon_output (snd x))) (recon_images s)\<rparr>"

text \<open>Lines 279-287: the frame is written with its labels.\<close>

definition export_metadata :: "recon \<Rightarrow> world \<Rightarrow> world" where
  "export_metadata s w = w\<lparr>mdout := Some (meta_out s)\<rparr>"

text \<open>The object \<^verbatim>\<open>subprocess.run\<close> returns. An attribute is \<open>None\<close> when the stream was
  not captured.\<close>

record completed_process =
  returncode :: int
  cp_stdout :: "string option"
  cp_stderr :: "string option"

text \<open>Python's truth value of \<^verbatim>\<open>batchruntomo.stderr\<close>: \<^verbatim>\<open>None\<close> and the empty string
  are false.\<close>

definition truthy :: "string option \<Rightarrow> bool" where
  "truthy x = (case x of None \<Rightarrow> False | Some s \<Rightarrow> s \<noteq> [])"

text \<open>Lines 253-259, the statements after the invocation of one tilt series.\<close>

definition after_invocation :: "completed_process \<Rightarrow> int \<Rightarrow> recon \<Rightarrow> world \<Rightarrow> (error + recon) \<times> world" where
  "after_invocation cp curr_ts s w =
     (if truthy (cp_stderr cp) then (Inl (ValueError (returncode cp) curr_ts), w)
      else
        let s1 = s\<lparr>stdout := cp_stdout cp\<rparr>;
            s2 = update_recon_metadata w s1
        in (Inr s2, export_metadata s2 w))"

text \<open>Lines 241-259, the loop, for any way \<open>run\<close> of invoking the tool on a tilt series.\<close>

fun recon_loop ::
  "(int \<Rightarrow> world \<Rightarrow> completed_process \<times> world) \<Rightarrow> int list \<Rightarrow> recon \<Rightarrow> world \<Rightarrow> (error + recon) \<times> world" where
  "recon_loop run [] s w = (Inr s, w)"
| "recon_loop run (curr_ts # rest) s w =
     (case run curr_ts w of
        (cp, w1) \<Rightarrow>
          (case after_invocation cp curr_ts s w1 of
             (Inl e, w2) \<Rightarrow> (Inl e, w2)
           | (Inr s', w2) \<Rightarrow> recon_loop run rest s' w2))"

text \<open>The external tool: what one run on a tilt series returns and leaves on disk.\<close>

record tool_result =
  tr_status :: int
  tr_stdout :: string
  tr_stderr :: string
  tr_files :: "string set"

text \<open>Lines 248-251: \<^verbatim>\<open>subprocess.run(cmd, stdout=PIPE, stderr=STDOUT, encoding='ascii')\<close>.
  The error stream is sent into the captured output stream, so the attribute
  \<^verbatim>\<open>stderr\<close> of the result is \<^verbatim>\<open>None\<close>. (The order in which the two streams
  interleave is the tool's; the text is only stored.)\<close>

definition subprocess_run ::
  "(int \<Rightarrow> string set \<Rightarrow> tool_result) \<Rightarrow> int \<Rightarrow> world \<Rightarrow> completed_process \<times> world" where
  "subprocess_run tool curr_ts w =
     (let res = tool curr_ts (files w)
      in (\<lparr>returncode = tr_status res,
           cp_stdout = Some (tr_stdout res @ tr_stderr res),
           cp_stderr = None\<rparr>,
          w\<lparr>files := tr_files res, calls := calls w @ [curr_ts]\<rparr>))"

text \<open>Lines 233-259. \<^verbatim>\<open>_get_adoc\<close> writes the directive file \<^verbatim>\<open>./recon.adoc\<close>.\<close>

definition get_adoc :: "world \<Rightarrow> world" where
  "get_adoc w = w\<lparr>files := insert ''./recon.adoc'' (files w)\<rparr>"

definition recon_stack ::
  "(int \<Rightarrow> string set \<Rightarrow> tool_result) \<Rightarrow> recon \<Rightarrow> world \<Rightarrow> (error + recon) \<times> world" where
  "recon_stack tool s w = recon_loop (subprocess_run tool) (process_list s) s (get_adoc w)"

subsection \<open>Example runs\<close>

text \<open>A project with output path \<^verbatim>\<open>o/\<close>, root name \<^verbatim>\<open>r_\<close> and no suffix, a requested
  list, the files on disk and the stored record; and a tool that writes the reconstruction
  of the tilt series it is run on, except on the tilt series \<open>bad\<close>, where it writes
  nothing and ends with the given status and error text.\<close>

definition ex_params :: "int list \<Rightarrow> params" where
  "ex_params pl =
     \<lparr>output_path = ''o/'', output_rootname = ''r_'', output_suffix = [],
      System_process_list = pl\<rparr>"

definition ex_world :: "string set \<Rightarrow> frame option \<Rightarrow> world" where
  "ex_world fs stored = \<lparr>files = fs, dirs = {}, mdout = stored, calls = []\<rparr>"

definition ex_tool :: "int \<Rightarrow> int \<Rightarrow> string \<Rightarrow> int \<Rightarrow> string set \<Rightarrow> tool_result" where
  "ex_tool bad status err curr_ts fs =
     (if curr_ts = bad
      then \<lparr>tr_status = status, tr_stdout = ''out'', tr_stderr = err, tr_files = fs\<rparr>
      else \<lparr>tr_status = 0, tr_stdout = ''out'', tr_stderr = [],
            tr_files = insert (recon_output (recon_row ''o'' ''r'' [] curr_ts)) fs\<rparr>)"

text \<open>Requested 1, 2, 3; the record holds tilt series 2, whose two files are on disk.\<close>

definition B_world :: world where
  "B_world =
     ex_world {''o/r_02/r_02_ali.mrc'', ''o/r_02/r_02_rec.mrc''}
       (Some [(0, Row 2 ''o/r_02/r_02_ali.mrc'' ''o/r_02/r_02_rec.mrc'')])"

definition B_world1 :: world where
  "B_world1 = B_world\<lparr>dirs := {''o/r_01'', ''o/r_02'', ''o/r_03''}\<rparr>"

definition B_recon :: recon where
  "B_recon =
     \<lparr>basis_folder = ''o'', rootname = ''r'', suffix = [],
      path_dict = [(1, ''o/r_01''), (2, ''o/r_02''), (3, ''o/r_03'')],
      recon_images = [(0, Row 1 ''o/r_01/r_01_ali.mrc'' ''o/r_01/r_01_rec.mrc''),
                      (2, Row 3 ''o/r_03/r_03_ali.mrc'' ''o/r_03/r_03_rec.mrc'')],
      meta_out = [(0, Row 2 ''o/r_02/r_02_ali.mrc'' ''o/r_02/r_02_rec.mrc'')],
      no_processes = False, process_list = [1, 3], stdout = None\<rparr>"

text \<open>Requested 1; the record holds tilt series 2, whose reconstruction is not on disk.\<close>

definition U_world :: world where
  "U_world = ex_world {} (Some [(0, Row 2 ''o/r_02/r_02_ali.mrc'' ''o/r_02/r_02_rec.mrc'')])"

definition U_recon :: recon where
  "U_recon =
     \<lparr>basis_folder = ''o'', rootname = ''r'', suffix = [],
      path_dict = [(1, ''o/r_01'')],
      recon_images = [(0, Row 1 ''o/r_01/r_01_ali.mrc'' ''o/r_01/r_01_rec.mrc'')],
      meta_out = [(0, Row 2 ''o/r_02/r_02_ali.mrc'' ''o/r_02/r_02_rec.mrc'')],
      no_processes = False, process_list = [1], stdout = None\<rparr>"

text \<open>Requested 1, 2, 3; the record holds tilt series 2 and 7, no reconstruction is on
  disk.\<close>

definition S_world :: world where
  "S_world =
     ex_world {}
       (Some [(0, Row 2 ''o/r_02/r_02_ali.mrc'' ''o/r_02/r_02_rec.mrc''),
              (1, Row 7 ''o/r_07/r_07_ali.mrc'' ''o/r_07/r_07_rec.mrc'')])"

definition S_world1 :: world where
  "S_world1 = S_world\<lparr>dirs := {''o/r_01'', ''o/r_02'', ''o/r_03''}\<rparr>"

definition S_recon :: recon where
  "S_recon =
     \<lparr>basis_folder = ''o'', rootname = ''r'', suffix = [],
      path_dict = [(1, ''o/r_01''), (2, ''o/r_02''), (3, ''o/r_03'')],
      recon_images = [(0, Row 1 ''o/r_01/r_01_ali.mrc'' ''o/r_01/r_01_rec.mrc''),
                      (1, Row 2 ''o/r_02/r_02_ali.mrc'' ''o/r_02/r_02_rec.mrc''),
                      (2, Row 3 ''o/r_03/r_03_ali.mrc'' ''o/r_03/r_03_rec.mrc'')],
      meta_out = [(1, Row 7 ''o/r_07/r_07_ali.mrc'' ''o/r_07/r_07_rec.mrc'')],
      no_processes = False, process_list = [1, 2, 3], stdout = None\<rparr>"

text \<open>Requested 1, 2, 3; the record holds one row with the reconstruction path of tilt
  series 2, which is on disk, and another aligned path.\<close>

definition P_world :: world where
  "P_world =
     ex_world {''o/r_02/r_02_rec.mrc''}
       (Some [(0, Row 2 ''elsewhere/r_02_ali.mrc'' ''o/r_02/r_02_rec.mrc'')])"

definition P_world1 :: world where
  "P_world1 = P_world\<lparr>dirs := {''o/r_01'', ''o/r_02'', ''o/r_03''}\<rparr>"

definition P_recon :: recon where
  "P_recon =
     \<lparr>basis_folder = ''o'', rootname = ''r'', suffix = [],
      path_dict = [(1, ''o/r_01''), (2, ''o/r_02''), (3, ''o/r_03'')],
      recon_images = [(0, Row 1 ''o/r_01/r_01_ali.mrc'' ''o/r_01/r_01_rec.mrc''),
                      (2, Row 3 ''o/r_03/r_03_ali.mrc'' ''o/r_03/r_03_rec.mrc'')],
      meta_out = [(0, Row 2 ''elsewhere/r_02_ali.mrc'' ''o/r_02/r_02_rec.mrc'')],
      no_processes = False, process_list = [1, 3], stdout = None\<rparr>"

text \<open>Requested 1, 2, 3; no record, nothing on disk; the state and the world after the
  constructor, and after the first successful step of the loop.\<close>

definition A_world :: world where
  "A_world = ex_world {} None"

definition A_world1 :: world where
  "A_world1 = A_world\<lparr>dirs := {''o/r_01'', ''o/r_02'', ''o/r_03''}\<rparr>"

definition A_recon :: recon where
  "A_recon =
     \<lparr>basis_folder = ''o'', rootname = ''r'', suffix = [],
      path_dict = [(1, ''o/r_01''), (2, ''o/r_02''), (3, ''o/r_03'')],
      recon_images = [(0, Row 1 ''o/r_01/r_01_ali.mrc'' ''o/r_01/r_01_rec.mrc''),
                      (1, Row 2 ''o/r_02/r_02_ali.mrc'' ''o/r_02/r_02_rec.mrc''),
                      (2, Row 3 ''o/r_03/r_03_ali.mrc'' ''o/r_03/r_03_rec.mrc'')],
      meta_out = [], no_processes = False, process_list = [1, 2, 3], stdout = None\<rparr>"

definition A1_recon :: recon where
  "A1_recon =
     A_recon\<lparr>recon_images := [(1, Row 2 ''o/r_02/r_02_ali.mrc'' ''o/r_02/r_02_rec.mrc''),
                               (2, Row 3 ''o/r_03/r_03_ali.mrc'' ''o/r_03/r_03_rec.mrc'')],
             meta_out := [(0, Row 1 ''o/r_01/r_01_ali.mrc'' ''o/r_01/r_01_rec.mrc'')],
             stdout := Some ''out''\<rparr>"

definition A1_world :: world where
  "A1_world =
     A_world1\<lparr>files := {''o/r_01/r_01_rec.mrc''},
              mdout := Some [(0, Row 1 ''o/r_01/r_01_ali.mrc'' ''o/r_01/r_01_rec.mrc'')],
              calls := [1]\<rparr>"

text \<open>The state after the constructor is run again in the world the first turn of the loop
  leaves.\<close>

definition A2_recon :: recon where
  "A2_recon =
     A_recon\<lparr>recon_images := [(1, Row 2 ''o/r_02/r_02_ali.mrc'' ''o/r_02/r_02_rec.mrc''),
                               (2, Row 3 ''o/r_03/r_03_ali.mrc'' ''o/r_03/r_03_rec.mrc'')],
             meta_out := [(0, Row 1 ''o/r_01/r_01_ali.mrc'' ''o/r_01/r_01_rec.mrc'')],
             process_list := [2, 3]\<rparr>"

text \<open>An invocation that captures the two streams of the tool separately, as a call with
  \<^verbatim>\<open>stderr=PIPE\<close> would; the class does not call the tool this way.\<close>

definition ex_capture ::
  "(int \<Rightarrow> string set \<Rightarrow> tool_result) \<Rightarrow> int \<Rightarrow> world \<Rightarrow> completed_process \<times> world" where
  "ex_capture tool curr_ts w =
     (let res = tool curr_ts (files w)
      in (\<lparr>returncode = tr_status res, cp_stdout = Some (tr_stdout res),
           cp_stderr = Some (tr_stderr res)\<rparr>,
          w\<lparr>files := tr_files res, calls := calls w @ [curr_ts]\<rparr>))"

text \<open>Requested 1, 2, 3; the record holds the row of tilt series 2 twice, its files are on
  disk.\<close>

definition D_world :: world where
  "D_world =
     ex_world {''o/r_02/r_02_ali.mrc'', ''o/r_02/r_02_rec.mrc''}
       (Some [(0, Row 2 ''o/r_02/r_02_ali.mrc'' ''o/r_02/r_02_rec.mrc''),
              (1, Row 2 ''o/r_02/r_02_ali.mrc'' ''o/r_02/r_02_rec.mrc'')])"

definition D_world1 :: world where
  "D_world1 = D_world\<lparr>dirs := {''o/r_01'', ''o/r_02'', ''o/r_03''}\<rparr>"

text \<open>An empty requested list, and the requested list -1, 100; no record, nothing on disk.\<close>

definition E_recon :: recon where
  "E_recon =
     \<lparr>basis_folder = ''o'', rootname = ''r'', suffix = [],
      path_dict = [], recon_images = [], meta_out = [],
      no_processes = True, process_list = [], stdout = None\<rparr>"

definition N_recon :: recon where
  "N_recon =
     \<lparr>basis_folder = ''o'', rootname = ''r'', suffix = [],
      path_dict = [(- 1, ''o/r_-1''), (100, ''o/r_100'')],
      recon_images = [(0, Row (- 1) ''o/r_-1/r_-1_ali.mrc'' ''o/r_-1/r_-1_rec.mrc''),
                      (1, Row 100 ''o/r_100/r_100_ali.mrc'' ''o/r_100/r_100_rec.mrc'')],
      meta_out = [], no_processes = False, process_list = [- 1, 100], stdout = None\<rparr>"

section \<open>Properties\<close>

subsection \<open>Dropping duplicates\<close>

lemma set_keep_first: "set (keep_first seen xs) = set xs - set seen"
  by (induction xs arbitrary: seen) auto

lemma distinct_keep_first: "distinct (keep_first seen xs)"
  by (induction xs arbitrary: seen) (auto simp: set_keep_first)

lemma sorted_keep_first: "sorted xs \<Longrightarrow> sorted (keep_first seen xs)"
  by (induction xs arbitrary: seen) (auto simp: set_keep_first)

lemma keep_first_cong_set: "set seen = set seen' \<Longrightarrow> keep_first seen xs = keep_first seen' xs"
proof (induction xs arbitrary: seen seen')
  case Nil
  then show ?case by simp
next
  case (Cons x xs)
  have "set (x # seen) = set (x # seen')" using Cons.prems by simp
  then have a: "keep_first (x # seen) xs = keep_first (x # seen') xs" by (rule Cons.IH)
  have b: "keep_first seen xs = keep_first seen' xs" using Cons.prems by (rule Cons.IH)
  have c: "x \<in> set seen \<longleftrightarrow> x \<in> set seen'" using Cons.prems by simp
  show ?case by (simp add: a b c)
qed

lemma keep_first_Cons_seen: "keep_first (a # seen) xs = filter (\<lambda>y. y \<noteq> a) (keep_first seen xs)"
proof (induction xs arbitrary: seen)
  case Nil
  then show ?case by simp
next
  case (Cons x xs)
  have swap: "keep_first (x # a # seen) xs = keep_first (a # x # seen) xs"
    by (rule keep_first_cong_set) auto
  show ?case
  proof (cases "x = a")
    case True
    then show ?thesis
      using Cons.IH [of seen] by simp
  next
    case False
    then show ?thesis
      using Cons.IH [of seen] Cons.IH [of "x # seen"] swap by simp
  qed
qed

lemma remdups_snoc: "remdups (ys @ [x]) = filter (\<lambda>y. y \<noteq> x) (remdups ys) @ [x]"
  by (induction ys) auto

lemma keep_first_rev_remdups: "keep_first [] xs = rev (remdups (rev xs))"
proof (induction xs)
  case Nil
  then show ?case by simp
next
  case (Cons x xs)
  then show ?case
    by (simp add: keep_first_Cons_seen remdups_snoc rev_filter)
qed

lemma rows_drop_dups: "rows (drop_dups seen f) = keep_first seen (rows f)"
  by (induction f arbitrary: seen) (auto simp: rows_def)

lemma set_drop_dups: "set (drop_dups seen f) \<subseteq> set f"
  by (induction f arbitrary: seen) auto

lemma labels_drop_dups_sorted:
  "sorted_wrt (<) (labels f) \<Longrightarrow> sorted_wrt (<) (labels (drop_dups seen f))"
proof (induction f arbitrary: seen)
  case Nil
  then show ?case by (simp add: labels_def)
next
  case (Cons x f)
  have sub: "set (labels (drop_dups s f)) \<subseteq> set (labels f)" for s
    using set_drop_dups [of s f] by (auto simp: labels_def)
  from Cons.prems have lt: "\<forall>l \<in> set (labels f). fst x < l" and sf: "sorted_wrt (<) (labels f)"
    by (simp_all add: labels_def)
  show ?case
  proof (cases "snd x \<in> set seen")
    case True
    then show ?thesis using Cons.IH [OF sf] by simp
  next
    case False
    have "\<forall>l \<in> set (labels (drop_dups (snd x # seen) f)). fst x < l"
      using sub lt by blast
    with False Cons.IH [OF sf, of "snd x # seen"] show ?thesis
      by (simp add: labels_def)
  qed
qed

lemma drop_dups_id: "distinct (rows f) \<Longrightarrow> set (rows f) \<inter> set seen = {} \<Longrightarrow> drop_dups seen f = f"
  by (induction f arbitrary: seen) (auto simp: rows_def)

lemma sorted_bounded_upt:
  "sorted_wrt (<) ls \<Longrightarrow> \<forall>l \<in> set ls. l < length ls \<Longrightarrow> ls = [0 ..< length ls]"
proof (induction ls rule: rev_induct)
  case Nil
  then show ?case by simp
next
  case (snoc y ys)
  from snoc.prems have sorted: "sorted_wrt (<) ys" and above: "\<forall>l \<in> set ys. l < y"
    by (auto simp: sorted_wrt_append)
  from snoc.prems have le: "y \<le> length ys" by simp
  with above have "\<forall>l \<in> set ys. l < length ys" by auto
  with snoc.IH sorted have ys: "ys = [0 ..< length ys]" by simp
  have "length ys \<le> y"
  proof (cases "length ys")
    case 0
    then show ?thesis by simp
  next
    case (Suc k)
    have "k \<in> set [0 ..< length ys]" using Suc by simp
    with ys have "k \<in> set ys" by simp
    with above Suc show ?thesis by auto
  qed
  with le have y: "y = length ys" by simp
  have "[0 ..< length (ys @ [y])] = [0 ..< length ys] @ [length ys]" by simp
  with ys y show ?case by simp
qed

lemma length_filter_eq_distinct:
  "distinct R \<Longrightarrow> length (filter (\<lambda>q. q = r) R) = (if r \<in> set R then 1 else 0)"
  by (induction R) auto

lemma merge_left_only_distinct:
  "distinct R \<Longrightarrow> merge_left_only L R = map (\<lambda>r. r \<notin> set R) L"
  by (induction L) (auto simp: length_filter_eq_distinct Let_def)

lemma bool_index_aligned:
  assumes "labels f = [0 ..< length f]" and "distinct R"
  shows "bool_index f (merge_left_only (rows f) R) = Inr (filter (\<lambda>x. snd x \<notin> set R) f)"
proof -
  have key: "merge_left_only (rows f) R = map (\<lambda>r. r \<notin> set R) (rows f)"
    using assms(2) by (rule merge_left_only_distinct)
  have lab: "fst x < length f \<and> f ! fst x = x" if "x \<in> set f" for x
  proof -
    from that obtain i where i: "i < length f" "f ! i = x" by (auto simp: in_set_conv_nth)
    have "labels f ! i = i" using assms(1) i(1) by simp
    then have "fst x = i" using i by (simp add: labels_def)
    then show ?thesis using i by simp
  qed
  have all: "list_all (\<lambda>x. fst x < length (map (\<lambda>r. r \<notin> set R) (rows f))) f"
    using lab by (simp add: list_all_iff rows_def)
  have "filter (\<lambda>x. map (\<lambda>r. r \<notin> set R) (rows f) ! fst x) f = filter (\<lambda>x. snd x \<notin> set R) f"
  proof (rule filter_cong [OF refl])
    fix x assume "x \<in> set f"
    with lab have "fst x < length f" "f ! fst x = x" by auto
    then show "map (\<lambda>r. r \<notin> set R) (rows f) ! fst x = (snd x \<notin> set R)"
      by (simp add: rows_def)
  qed
  then show ?thesis
    using all by (simp add: bool_index_def key)
qed

lemma bool_index_sorted:
  assumes "sorted_wrt (<) (labels f)" and "distinct R"
  shows "bool_index f (merge_left_only (rows f) R) =
           (if list_all (\<lambda>x. fst x < length f) f
            then Inr (filter (\<lambda>x. snd x \<notin> set R) f) else Inl IndexingError)"
proof (cases "list_all (\<lambda>x. fst x < length f) f")
  case True
  then have "\<forall>l \<in> set (labels f). l < length (labels f)"
    by (auto simp: list_all_iff labels_def)
  with assms(1) have "labels f = [0 ..< length f]"
    using sorted_bounded_upt [of "labels f"] by (simp add: labels_def)
  with assms(2) True show ?thesis by (simp add: bool_index_aligned)
next
  case False
  have "length (merge_left_only (rows f) R) = length f"
    using assms(2) by (simp add: merge_left_only_distinct rows_def)
  with False show ?thesis by (simp add: bool_index_def)
qed

subsection \<open>Evaluation of the examples\<close>

lemmas eval_defs = Recon_init_def get_internal_metadata_def check_reconned_images_def
  prune_record_def prune_work_list_def load_record_def stored_frame_def drop_duplicates_def bool_index_def
  ignore_index_def recon_row_def subfolder_of_def format_02d_def decimal.simps digit_char_def
  strip_trailing_def ends_with_def makedirs_def isfile_def rows_def labels_def unique_def
  record_columns_def ex_params_def ex_world_def Let_def

lemmas run_defs = recon_stack_def get_adoc_def subprocess_run_def after_invocation_def
  truthy_def update_recon_metadata_def export_metadata_def ex_tool_def

lemma B_init: "Recon_init [''ts''] (ex_params [1, 2, 3]) B_world = (Inr B_recon, B_world1)"
  by (simp add: eval_defs B_world_def B_world1_def B_recon_def upt_rec insert_commute)

subsection \<open>The work list and the order of the loop\<close>

lemma strict_sorted_unique_sort: "sorted_wrt (<) (unique (sort (xs :: int list)))"
  by (simp add: unique_def strict_sorted_iff sorted_keep_first distinct_keep_first)

lemma prune_work_list_process_list:
  "prune_work_list s0 = Inr s \<Longrightarrow> process_list s = unique (sort (map ts (rows (recon_images s))))"
  by (auto simp: prune_work_list_def Let_def split: sum.splits)

lemma Recon_init_process_list:
  "Recon_init mc p w = (Inr s, w1) \<Longrightarrow> process_list s = unique (sort (map ts (rows (recon_images s))))"
  by (auto simp: Recon_init_def check_reconned_images_def split: prod.splits sum.splits
      dest: prune_work_list_process_list)

lemma after_invocation_no_stderr:
  "cp_stderr cp = None \<Longrightarrow>
     after_invocation cp t s w =
       (Inr (update_recon_metadata w (s\<lparr>stdout := cp_stdout cp\<rparr>)),
        export_metadata (update_recon_metadata w (s\<lparr>stdout := cp_stdout cp\<rparr>)) w)"
  by (simp add: after_invocation_def truthy_def Let_def)

lemma recon_loop_subprocess_calls:
  "\<exists>s'. fst (recon_loop (subprocess_run tool) l s w) = Inr s'
     \<and> calls (snd (recon_loop (subprocess_run tool) l s w)) = calls w @ l"
proof (induction l arbitrary: s w)
  case Nil
  then show ?case by simp
next
  case (Cons t l)
  obtain cp w1 where run: "subprocess_run tool t w = (cp, w1)" by (cases "subprocess_run tool t w")
  then have cp: "cp_stderr cp = None" and c1: "calls w1 = calls w @ [t]"
    by (auto simp: subprocess_run_def Let_def)
  let ?s2 = "update_recon_metadata w1 (s\<lparr>stdout := cp_stdout cp\<rparr>)"
  have step: "recon_loop (subprocess_run tool) (t # l) s w
                = recon_loop (subprocess_run tool) l ?s2 (export_metadata ?s2 w1)"
    by (simp add: run after_invocation_no_stderr [OF cp])
  have "calls (export_metadata ?s2 w1) = calls w @ [t]"
    using c1 by (simp add: export_metadata_def)
  with Cons.IH [of ?s2 "export_metadata ?s2 w1"] step show ?case by simp
qed

text \<open>
  Claim C8. Whenever the constructor returns, the work list \<^verbatim>\<open>_process_list\<close> it leaves is
  in strictly ascending order of tilt-series number, and \<^verbatim>\<open>recon_stack\<close> runs the tool on
  exactly these tilt series, in that order: the invocations it adds to the world are the
  work list itself.
\<close>

theorem work_list_ascending:
  assumes "Recon_init mc p w = (Inr s, w1)"
  shows "sorted_wrt (<) (process_list s)
       \<and> calls (snd (recon_stack tool s w1)) = calls w1 @ process_list s"
proof -
  have "sorted_wrt (<) (process_list s)"
    using Recon_init_process_list [OF assms] by (simp add: strict_sorted_unique_sort)
  moreover have "calls (snd (recon_stack tool s w1)) = calls w1 @ process_list s"
    using recon_loop_subprocess_calls [of tool "process_list s" s "get_adoc w1"]
    by (simp add: recon_stack_def get_adoc_def)
  ultimately show ?thesis by simp
qed

theorem work_list_ascending_witness:
  "Recon_init [''ts''] (ex_params [1, 2, 3]) B_world = (Inr B_recon, B_world1)
   \<and> process_list B_recon = [1, 3]
   \<and> calls (snd (recon_stack (ex_tool 0 0 []) B_recon B_world1)) = [1, 3]"
  using work_list_ascending [OF B_init, of "ex_tool 0 0 []"] B_init
  by (simp add: B_recon_def B_world1_def B_world_def ex_world_def)

subsection \<open>The two passes of \<^verbatim>\<open>_check_reconned_images\<close>\<close>

lemma set_missing_specified:
  "set (concat (map (\<lambda>t. filter (\<lambda>r. ts r = t) M) pl)) = {r \<in> set M. ts r \<in> set pl}"
  by (induction pl) auto

lemma distinct_missing_specified:
  "distinct M \<Longrightarrow> distinct pl \<Longrightarrow> distinct (concat (map (\<lambda>t. filter (\<lambda>r. ts r = t) M) pl))"
  by (induction pl) (auto simp: set_missing_specified)

lemma rows_filter: "rows (filter (\<lambda>x. P (snd x)) f) = filter P (rows f)"
  by (simp add: rows_def filter_map comp_def)

lemma distinct_rows_filter: "distinct (rows f) \<Longrightarrow> distinct (rows (filter P f))"
  by (simp add: rows_def distinct_map_filter)

lemma bool_index_rows_distinct:
  "bool_index f key = Inr g \<Longrightarrow> distinct (rows f) \<Longrightarrow> distinct (rows g)"
  by (auto simp: bool_index_def distinct_rows_filter split: if_splits)

lemma prune_record_distinct:
  "prune_record mc pl w mo = Inr mo' \<Longrightarrow> distinct (rows mo) \<Longrightarrow> distinct (rows mo')"
  by (auto simp: prune_record_def Let_def split: if_splits dest: bool_index_rows_distinct)

lemma prune_record_Inr:
  assumes "distinct pl" and "sorted_wrt (<) (labels mo)" and "distinct (rows mo)"
    and "prune_record mc pl w mo = Inr mo'"
  shows "mo' = filter (\<lambda>x. isfile w (recon_output (snd x)) \<or> ts (snd x) \<notin> set pl) mo"
proof (cases "mo = []")
  case True
  with assms(4) show ?thesis by (simp add: prune_record_def)
next
  case False
  let ?missing = "filter (\<lambda>x. \<not> isfile w (recon_output (snd x))) mo"
  let ?ms = "concat (map (\<lambda>t. filter (\<lambda>r. ts r = t) (rows ?missing)) pl)"
  have dm: "distinct (rows ?missing)" using assms(3) by (rule distinct_rows_filter)
  have dms: "distinct ?ms" using dm assms(1) by (rule distinct_missing_specified)
  have sms: "set ?ms = {r \<in> set (rows mo). \<not> isfile w (recon_output r) \<and> ts r \<in> set pl}"
    by (auto simp: set_missing_specified rows_def)
  from assms(4) False have "bool_index mo (merge_left_only (rows mo) ?ms) = Inr mo'"
    by (simp add: prune_record_def Let_def split: if_splits)
  then have "mo' = filter (\<lambda>x. snd x \<notin> set ?ms) mo"
    by (simp add: bool_index_sorted [OF assms(2) dms] split: if_splits)
  also have "\<dots> = filter (\<lambda>x. isfile w (recon_output (snd x)) \<or> ts (snd x) \<notin> set pl) mo"
    by (rule filter_cong [OF refl]) (auto simp: sms rows_def)
  finally show ?thesis .
qed

lemma labels_ignore_index: "labels (ignore_index rs) = [0 ..< length rs]"
  by (simp add: labels_def ignore_index_def)

lemma rows_ignore_index: "rows (ignore_index rs) = rs"
  by (simp add: rows_def ignore_index_def)

lemma length_ignore_index: "length (ignore_index rs) = length rs"
  by (simp add: ignore_index_def)

lemma ts_expected_row: "ts (expected_row p t) = t"
  by (simp add: expected_row_def recon_row_def Let_def)

lemma distinct_expected_rows:
  assumes "distinct pl"
  shows "distinct (map (expected_row p) pl)"
proof -
  have "inj_on (expected_row p) (set pl)"
  proof (rule inj_onI)
    fix a b
    assume "expected_row p a = expected_row p b"
    then have "ts (expected_row p a) = ts (expected_row p b)" by simp
    then show "a = b" by (simp add: ts_expected_row)
  qed
  with assms show ?thesis by (simp add: distinct_map)
qed

lemma fold_makedirs:
  "fold (\<lambda>t. makedirs (g t)) pl w = w\<lparr>dirs := dirs w \<union> g ` set pl\<rparr>"
  by (induction pl arbitrary: w) (auto simp: makedirs_def)

lemma get_internal_metadata_eq:
  "get_internal_metadata p w =
     ((strip_trailing (CHR ''/'') (output_path p),
       strip_trailing (CHR ''_'') (output_rootname p),
       strip_trailing (CHR ''_'') (output_suffix p),
       fold (\<lambda>t. dict_set t
                (subfolder_of (strip_trailing (CHR ''/'') (output_path p))
                   (strip_trailing (CHR ''_'') (output_rootname p))
                   (strip_trailing (CHR ''_'') (output_suffix p)) t))
         (System_process_list p) [],
       ignore_index (map (expected_row p) (System_process_list p))),
      w\<lparr>dirs := dirs w \<union>
           subfolder_of (strip_trailing (CHR ''/'') (output_path p))
             (strip_trailing (CHR ''_'') (output_rootname p))
             (strip_trailing (CHR ''_'') (output_suffix p)) ` set (System_process_list p)\<rparr>)"
  by (simp add: get_internal_metadata_def Let_def fold_makedirs expected_row_def [abs_def])

lemma prune_work_list_aligned:
  assumes "labels (recon_images s0) = [0 ..< length (recon_images s0)]"
    and "distinct (rows (recon_images s0))"
  shows "\<exists>s. prune_work_list s0 = Inr s
           \<and> recon_images s =
               filter (\<lambda>x. recon_output (snd x) \<notin> set (map recon_output (rows (meta_out s0))))
                 (recon_images s0)
           \<and> meta_out s = meta_out s0"
proof -
  let ?P = "\<lambda>x. recon_output (snd x) \<in> set (map recon_output (rows (meta_out s0)))"
  let ?ignored = "filter ?P (recon_images s0)"
  have di: "distinct (rows ?ignored)" using assms(2) by (rule distinct_rows_filter)
  have bi: "bool_index (recon_images s0) (merge_left_only (rows (recon_images s0)) (rows ?ignored))
              = Inr (filter (\<lambda>x. snd x \<notin> set (rows ?ignored)) (recon_images s0))"
    using assms(1) di by (rule bool_index_aligned)
  have "filter (\<lambda>x. snd x \<notin> set (rows ?ignored)) (recon_images s0)
          = filter (\<lambda>x. \<not> ?P x) (recon_images s0)"
    by (rule filter_cong [OF refl]) (force simp: rows_def)
  with bi show ?thesis
    by (simp add: prune_work_list_def Let_def)
qed

lemma rows_load_record: "rows (load_record w) = unique (rows (stored_frame w))"
  by (simp add: load_record_def drop_duplicates_def unique_def rows_drop_dups)

lemma distinct_load_record: "distinct (rows (load_record w))"
  by (simp add: rows_load_record unique_def distinct_keep_first)

lemma sorted_load_record:
  "sorted_wrt (<) (labels (stored_frame w)) \<Longrightarrow> sorted_wrt (<) (labels (load_record w))"
  by (simp add: load_record_def drop_duplicates_def labels_drop_dups_sorted)

lemma world_dirs_irrelevant:
  "stored_frame (w\<lparr>dirs := d\<rparr>) = stored_frame w"
  "load_record (w\<lparr>dirs := d\<rparr>) = load_record w"
  "isfile (w\<lparr>dirs := d\<rparr>) = isfile w"
  "prune_record mc pl (w\<lparr>dirs := d\<rparr>) mo = prune_record mc pl w mo"
  "check_reconned_images mc p (w\<lparr>dirs := d\<rparr>) s = check_reconned_images mc p w s"
  by (simp_all add: stored_frame_def load_record_def isfile_def [abs_def] prune_record_def
      check_reconned_images_def)

lemma Recon_init_char:
  assumes "distinct (System_process_list p)"
    and "sorted_wrt (<) (labels (stored_frame w))"
    and "Recon_init mc p w = (Inr s, w1)"
  shows "meta_out s =
           filter (\<lambda>x. isfile w (recon_output (snd x)) \<or> ts (snd x) \<notin> set (System_process_list p))
             (load_record w)"
    and "recon_images s =
           filter (\<lambda>x. recon_output (snd x) \<notin> set (map recon_output (rows (meta_out s))))
             (ignore_index (map (expected_row p) (System_process_list p)))"
    and "process_list s = unique (sort (map ts (rows (recon_images s))))"
proof -
  let ?pl = "System_process_list p"
  let ?ri = "ignore_index (map (expected_row p) ?pl)"
  let ?s0 = "\<lparr>basis_folder = strip_trailing (CHR ''/'') (output_path p),
              rootname = strip_trailing (CHR ''_'') (output_rootname p),
              suffix = strip_trailing (CHR ''_'') (output_suffix p),
              path_dict = fold (\<lambda>t. dict_set t
                (subfolder_of (strip_trailing (CHR ''/'') (output_path p))
                   (strip_trailing (CHR ''_'') (output_rootname p))
                   (strip_trailing (CHR ''_'') (output_suffix p)) t))
         (System_process_list p) [],
              recon_images = ?ri, meta_out = [],
              no_processes = False, process_list = ?pl, stdout = None\<rparr>"
  from assms(3) have chk: "check_reconned_images mc p w ?s0 = Inr s"
    by (simp add: Recon_init_def get_internal_metadata_eq world_dirs_irrelevant)
  then obtain mo where p1: "prune_record mc ?pl w (load_record w) = Inr mo"
    and p2: "prune_work_list (?s0\<lparr>meta_out := mo\<rparr>) = Inr s"
    by (auto simp: check_reconned_images_def split: sum.splits)
  have mo: "mo = filter (\<lambda>x. isfile w (recon_output (snd x)) \<or> ts (snd x) \<notin> set ?pl) (load_record w)"
    using assms(1) sorted_load_record [OF assms(2)] distinct_load_record p1
    by (rule prune_record_Inr)
  have "labels (recon_images (?s0\<lparr>meta_out := mo\<rparr>))
          = [0 ..< length (recon_images (?s0\<lparr>meta_out := mo\<rparr>))]"
    by (simp add: labels_ignore_index length_ignore_index)
  moreover have "distinct (rows (recon_images (?s0\<lparr>meta_out := mo\<rparr>)))"
    using assms(1) by (simp add: rows_ignore_index distinct_expected_rows)
  ultimately obtain s' where s': "prune_work_list (?s0\<lparr>meta_out := mo\<rparr>) = Inr s'"
    "recon_images s' = filter (\<lambda>x. recon_output (snd x) \<notin> set (map recon_output (rows mo))) ?ri"
    "meta_out s' = mo"
    using prune_work_list_aligned [of "?s0\<lparr>meta_out := mo\<rparr>"] by auto
  with p2 have eq: "s' = s" by simp
  show "meta_out s =
           filter (\<lambda>x. isfile w (recon_output (snd x)) \<or> ts (snd x) \<notin> set ?pl) (load_record w)"
    using s'(3) mo eq by simp
  show "recon_images s =
           filter (\<lambda>x. recon_output (snd x) \<notin> set (map recon_output (rows (meta_out s)))) ?ri"
    using s'(2,3) eq by simp
  show "process_list s = unique (sort (map ts (rows (recon_images s))))"
    using p2 by (rule prune_work_list_process_list)
qed

lemma set_unique: "set (unique xs) = set xs"
  by (simp add: unique_def set_keep_first)

lemma rows_filter_ignore_index:
  "rows (filter (\<lambda>x. P (snd x)) (ignore_index rs)) = filter P rs"
  by (simp add: rows_filter rows_ignore_index)

lemma Recon_init_work_list:
  assumes "distinct (System_process_list p)"
    and "sorted_wrt (<) (labels (stored_frame w))"
    and "Recon_init mc p w = (Inr s, w1)"
  shows "set (process_list s) =
           {t \<in> set (System_process_list p).
              recon_output (expected_row p t) \<notin> recon_output ` set (rows (meta_out s))}"
proof -
  let ?pl = "System_process_list p"
  let ?P = "\<lambda>r. recon_output r \<notin> set (map recon_output (rows (meta_out s)))"
  have r: "rows (recon_images s) = filter ?P (map (expected_row p) ?pl)"
    unfolding Recon_init_char(2) [OF assms]
    by (rule rows_filter_ignore_index [of ?P])
  have A: "set (process_list s) = ts ` set (filter ?P (map (expected_row p) ?pl))"
    unfolding Recon_init_char(3) [OF assms] r by (simp add: set_unique)
  have B: "ts ` set (filter ?P (map (expected_row p) ?pl)) = {t \<in> set ?pl. ?P (expected_row p t)}"
  proof (intro set_eqI iffI)
    fix t
    assume "t \<in> ts ` set (filter ?P (map (expected_row p) ?pl))"
    then obtain u where "u \<in> set ?pl" "?P (expected_row p u)" "t = ts (expected_row p u)"
      by auto
    then show "t \<in> {t \<in> set ?pl. ?P (expected_row p t)}"
      by (simp add: ts_expected_row)
  next
    fix t
    assume "t \<in> {t \<in> set ?pl. ?P (expected_row p t)}"
    then have "expected_row p t \<in> set (filter ?P (map (expected_row p) ?pl))" by simp
    then have "ts (expected_row p t) \<in> ts ` set (filter ?P (map (expected_row p) ?pl))"
      by (rule imageI)
    then show "t \<in> ts ` set (filter ?P (map (expected_row p) ?pl))"
      by (simp add: ts_expected_row)
  qed
  show ?thesis unfolding A B by simp
qed

lemma rows_meta_out_init:
  assumes "distinct (System_process_list p)"
    and "sorted_wrt (<) (labels (stored_frame w))"
    and "Recon_init mc p w = (Inr s, w1)"
  shows "rows (meta_out s) =
           filter (\<lambda>r. isfile w (recon_output r) \<or> ts r \<notin> set (System_process_list p))
             (unique (rows (stored_frame w)))"
  unfolding Recon_init_char(1) [OF assms] rows_load_record [symmetric]
  by (rule rows_filter [of "\<lambda>r. isfile w (recon_output r) \<or> ts r \<notin> set (System_process_list p)"])

text \<open>
  The theorems about the two passes are stated for a requested list without repetition (the
  requested tilt series form a set) and for a stored frame whose labels increase, as the
  labels of every frame that \<^verbatim>\<open>update_recon_metadata\<close> leaves for
  \<^verbatim>\<open>export_metadata\<close> do. They speak of the result of the constructor when it returns;
  it does return when, moreover, the stored frame has its default labels 0, 1, 2, ... and no
  repeated row, and the requested list is not empty (or the record is empty, or the input
  metadata shares a column with the record). The loop of \<^verbatim>\<open>recon_stack\<close> always returns:
  the completed process it tests has no \<^verbatim>\<open>stderr\<close>.
\<close>

lemma Recon_init_eq:
  "Recon_init mc p w =
     (check_reconned_images mc p w
        \<lparr>basis_folder = strip_trailing (CHR ''/'') (output_path p),
         rootname = strip_trailing (CHR ''_'') (output_rootname p),
         suffix = strip_trailing (CHR ''_'') (output_suffix p),
         path_dict = fold (\<lambda>t. dict_set t
                (subfolder_of (strip_trailing (CHR ''/'') (output_path p))
                   (strip_trailing (CHR ''_'') (output_rootname p))
                   (strip_trailing (CHR ''_'') (output_suffix p)) t))
         (System_process_list p) [],
         recon_images = ignore_index (map (expected_row p) (System_process_list p)),
         meta_out = [], no_processes = False,
         process_list = System_process_list p, stdout = None\<rparr>,
      w\<lparr>dirs := dirs w \<union>
           subfolder_of (strip_trailing (CHR ''/'') (output_path p))
             (strip_trailing (CHR ''_'') (output_rootname p))
             (strip_trailing (CHR ''_'') (output_suffix p)) ` set (System_process_list p)\<rparr>)"
  by (simp add: Recon_init_def get_internal_metadata_eq world_dirs_irrelevant)

lemma exported_labels_increase:
  "sorted_wrt (<) (labels (meta_out (update_recon_metadata w s)))"
  by (simp add: update_recon_metadata_def drop_duplicates_def labels_drop_dups_sorted
      labels_ignore_index)

lemma recon_stack_returns: "\<exists>s'. fst (recon_stack tool s w) = Inr s'"
  using recon_loop_subprocess_calls [of tool "process_list s" s "get_adoc w"]
  by (auto simp: recon_stack_def)

lemma Recon_init_returns:
  assumes "distinct (System_process_list p)"
    and "labels (stored_frame w) = [0 ..< length (stored_frame w)]"
    and "distinct (rows (stored_frame w))"
    and "System_process_list p \<noteq> [] \<or> stored_frame w = [] \<or> list_ex (\<lambda>c. c \<in> set mc) record_columns"
  shows "\<exists>s. fst (Recon_init mc p w) = Inr s"
proof -
  let ?pl = "System_process_list p"
  let ?mo = "load_record w"
  have mo: "?mo = stored_frame w"
    using assms(3) by (simp add: load_record_def drop_duplicates_def drop_dups_id)
  let ?missing = "filter (\<lambda>x. \<not> isfile w (recon_output (snd x))) ?mo"
  let ?ms = "concat (map (\<lambda>t. filter (\<lambda>r. ts r = t) (rows ?missing)) ?pl)"
  have "distinct (rows ?missing)" using distinct_load_record by (rule distinct_rows_filter)
  then have dms: "distinct ?ms" using assms(1) by (rule distinct_missing_specified)
  have "labels ?mo = [0 ..< length ?mo]" using assms(2) by (simp add: mo)
  then have bi: "bool_index ?mo (merge_left_only (rows ?mo) ?ms) = Inr (filter (\<lambda>x. snd x \<notin> set ?ms) ?mo)"
    using dms by (rule bool_index_aligned)
  have "\<exists>mo'. prune_record mc ?pl w ?mo = Inr mo'"
  proof (cases "?mo = []")
    case True
    then show ?thesis by (simp add: prune_record_def)
  next
    case False
    with assms(4) have nm: "\<not> (?pl = [] \<and> \<not> list_ex (\<lambda>c. c \<in> set mc) record_columns)"
      by (auto simp: mo)
    have "prune_record mc ?pl w ?mo = bool_index ?mo (merge_left_only (rows ?mo) ?ms)"
      unfolding prune_record_def Let_def using False nm by auto
    with bi show ?thesis by (simp only: sum.inject) blast
  qed
  then obtain mo' where p1: "prune_record mc ?pl w ?mo = Inr mo'" by blast
  let ?s0 = "\<lparr>basis_folder = strip_trailing (CHR ''/'') (output_path p),
              rootname = strip_trailing (CHR ''_'') (output_rootname p),
              suffix = strip_trailing (CHR ''_'') (output_suffix p),
              path_dict = fold (\<lambda>t. dict_set t
                (subfolder_of (strip_trailing (CHR ''/'') (output_path p))
                   (strip_trailing (CHR ''_'') (output_rootname p))
                   (strip_trailing (CHR ''_'') (output_suffix p)) t))
                (System_process_list p) [],
              recon_images = ignore_index (map (expected_row p) ?pl), meta_out = [],
              no_processes = False, process_list = ?pl, stdout = None\<rparr>"
  have "labels (recon_images (?s0\<lparr>meta_out := mo'\<rparr>))
          = [0 ..< length (recon_images (?s0\<lparr>meta_out := mo'\<rparr>))]"
    by (simp add: labels_ignore_index length_ignore_index)
  moreover have "distinct (rows (recon_images (?s0\<lparr>meta_out := mo'\<rparr>)))"
    using assms(1) by (simp add: rows_ignore_index distinct_expected_rows)
  ultimately obtain s where "prune_work_list (?s0\<lparr>meta_out := mo'\<rparr>) = Inr s"
    using prune_work_list_aligned [of "?s0\<lparr>meta_out := mo'\<rparr>"] by auto
  with p1 show ?thesis
    by (simp add: Recon_init_eq check_reconned_images_def)
qed

lemma U_init:
  "Recon_init [''ts''] (ex_params [1]) U_world = (Inr U_recon, U_world\<lparr>dirs := {''o/r_01''}\<rparr>)"
  by (simp add: eval_defs U_world_def U_recon_def upt_rec)

lemma S_init: "Recon_init [''ts''] (ex_params [1, 2, 3]) S_world = (Inr S_recon, S_world1)"
  by (simp add: eval_defs S_world_def S_world1_def S_recon_def upt_rec insert_commute)

lemma P_init: "Recon_init [''ts''] (ex_params [1, 2, 3]) P_world = (Inr P_recon, P_world1)"
  by (simp add: eval_defs P_world_def P_world1_def P_recon_def upt_rec insert_commute)

lemma ex_distinct: "distinct (System_process_list (ex_params [1, 2, 3]))"
  by (simp add: ex_params_def)

lemma ex_expected_row_2:
  "expected_row (ex_params pl) 2 = Row 2 ''o/r_02/r_02_ali.mrc'' ''o/r_02/r_02_rec.mrc''"
  by (simp add: eval_defs expected_row_def)

text \<open>
  Claim C1, as the code has it. The comment of the source reads "If a file (in specified TS)
  is in record but missing, remove from record": the first pass removes the rows whose
  reconstruction is not on disk \<^emph>\<open>and\<close> whose tilt series is in the requested list; a row of
  another tilt series stays, whatever the disk holds. The counterexample is a run where
  tilt series 1 is requested and the record holds tilt series 2, which is not on disk.
\<close>

theorem unrequested_stale_row_kept_counterexample:
  "Recon_init [''ts''] (ex_params [1]) U_world = (Inr U_recon, U_world\<lparr>dirs := {''o/r_01''}\<rparr>)
   \<and> rows (meta_out U_recon) = [Row 2 ''o/r_02/r_02_ali.mrc'' ''o/r_02/r_02_rec.mrc'']
   \<and> \<not> isfile U_world ''o/r_02/r_02_rec.mrc''"
  using U_init by (simp add: U_recon_def U_world_def ex_world_def rows_def isfile_def)

text \<open>
  Claim C1, amended. For a requested list without repetition and a stored frame whose labels
  increase, when the constructor returns: the record keeps, in their order, exactly the
  rows (first occurrences) whose reconstruction is on disk or whose tilt series is not
  requested. A stored row that is removed (file missing, tilt series requested) and that
  records the path derived for its tilt series puts this tilt series back into the work
  list, provided every stored row with the same path belongs to a requested tilt series
  (otherwise such a row stays and keeps the item out).
\<close>

theorem stale_requested_rows_removed:
  assumes "distinct (System_process_list p)"
    and "sorted_wrt (<) (labels (stored_frame w))"
    and "Recon_init mc p w = (Inr s, w1)"
  shows "rows (meta_out s) =
           filter (\<lambda>r. isfile w (recon_output r) \<or> ts r \<notin> set (System_process_list p))
             (unique (rows (stored_frame w)))
       \<and> (\<forall>r \<in> set (rows (stored_frame w)).
            \<not> isfile w (recon_output r) \<and> ts r \<in> set (System_process_list p)
            \<and> recon_output r = recon_output (expected_row p (ts r))
            \<and> (\<forall>q \<in> set (rows (stored_frame w)).
                  recon_output q = recon_output r \<longrightarrow> ts q \<in> set (System_process_list p))
            \<longrightarrow> r \<notin> set (rows (meta_out s)) \<and> ts r \<in> set (process_list s))"
proof (intro conjI ballI impI)
  show m: "rows (meta_out s) =
           filter (\<lambda>r. isfile w (recon_output r) \<or> ts r \<notin> set (System_process_list p))
             (unique (rows (stored_frame w)))"
    using assms by (rule rows_meta_out_init)
  fix r
  assume r: "r \<in> set (rows (stored_frame w))"
    and h: "\<not> isfile w (recon_output r) \<and> ts r \<in> set (System_process_list p)
            \<and> recon_output r = recon_output (expected_row p (ts r))
            \<and> (\<forall>q \<in> set (rows (stored_frame w)).
                  recon_output q = recon_output r \<longrightarrow> ts q \<in> set (System_process_list p))"
  from h have h1: "\<not> isfile w (recon_output r)" and h2: "ts r \<in> set (System_process_list p)"
    and h3: "recon_output r = recon_output (expected_row p (ts r))"
    and h4: "\<forall>q \<in> set (rows (stored_frame w)).
                  recon_output q = recon_output r \<longrightarrow> ts q \<in> set (System_process_list p)"
    by blast+
  show "r \<notin> set (rows (meta_out s))"
    using h1 h2 by (simp add: m)
  have "recon_output (expected_row p (ts r)) \<notin> recon_output ` set (rows (meta_out s))"
  proof
    assume "recon_output (expected_row p (ts r)) \<in> recon_output ` set (rows (meta_out s))"
    then obtain q where q: "q \<in> set (rows (meta_out s))" "recon_output q = recon_output r"
      using h3 by auto
    from q(1) have "q \<in> set (rows (stored_frame w))"
      and "isfile w (recon_output q) \<or> ts q \<notin> set (System_process_list p)"
      by (simp_all add: m set_unique)
    with q(2) h1 h4 show False by auto
  qed
  with h2 show "ts r \<in> set (process_list s)"
    by (simp add: Recon_init_work_list [OF assms])
qed

theorem stale_requested_rows_removed_witness:
  "distinct (System_process_list (ex_params [1, 2, 3]))
   \<and> sorted_wrt (<) (labels (stored_frame S_world))
   \<and> Recon_init [''ts''] (ex_params [1, 2, 3]) S_world = (Inr S_recon, S_world1)
   \<and> rows (meta_out S_recon) = [Row 7 ''o/r_07/r_07_ali.mrc'' ''o/r_07/r_07_rec.mrc'']
   \<and> Row 2 ''o/r_02/r_02_ali.mrc'' ''o/r_02/r_02_rec.mrc'' \<notin> set (rows (meta_out S_recon))
   \<and> 2 \<in> set (process_list S_recon)"
proof -
  have sl: "sorted_wrt (<) (labels (stored_frame S_world))"
    by (simp add: S_world_def ex_world_def stored_frame_def labels_def)
  note t = stale_requested_rows_removed [OF ex_distinct sl S_init]
  have r: "Row 2 ''o/r_02/r_02_ali.mrc'' ''o/r_02/r_02_rec.mrc'' \<in> set (rows (stored_frame S_world))"
    by (simp add: S_world_def ex_world_def stored_frame_def rows_def)
  have "Row 2 ''o/r_02/r_02_ali.mrc'' ''o/r_02/r_02_rec.mrc'' \<notin> set (rows (meta_out S_recon))
        \<and> ts (Row 2 ''o/r_02/r_02_ali.mrc'' ''o/r_02/r_02_rec.mrc'') \<in> set (process_list S_recon)"
    using t [THEN conjunct2, THEN bspec, OF r]
    by (simp add: ex_expected_row_2)
       (simp add: S_world_def ex_world_def stored_frame_def rows_def isfile_def ex_params_def)
  then show ?thesis
    using ex_distinct sl S_init by (simp add: S_recon_def rows_def)
qed

text \<open>
  Claim C3, as the code has it. The second pass looks only at the column
  \<^verbatim>\<open>recon_output\<close>: an item is dropped as soon as its reconstruction path is the
  \<^verbatim>\<open>recon_output\<close> of a row of the record. In the counterexample the record holds the
  reconstruction path of tilt series 2 and not its aligned path, and tilt series 2 is
  dropped from the work list all the same.
\<close>

theorem partial_row_satisfies_counterexample:
  "Recon_init [''ts''] (ex_params [1, 2, 3]) P_world = (Inr P_recon, P_world1)
   \<and> process_list P_recon = [1, 3]
   \<and> ''o/r_02/r_02_ali.mrc'' \<notin> set (map align_output (rows (meta_out P_recon)))"
  using P_init by (simp add: P_recon_def rows_def)

text \<open>
  Claim C3, amended. For a requested list without repetition and a stored frame whose labels
  increase, when the constructor returns, the work list holds exactly the requested tilt
  series whose derived reconstruction path is not the \<^verbatim>\<open>recon_output\<close> of any row of
  the pruned record; the aligned path is not consulted.
\<close>

theorem satisfied_by_recon_output_only:
  assumes "distinct (System_process_list p)"
    and "sorted_wrt (<) (labels (stored_frame w))"
    and "Recon_init mc p w = (Inr s, w1)"
  shows "set (process_list s) =
           {t \<in> set (System_process_list p).
              recon_output (expected_row p t) \<notin> recon_output ` set (rows (meta_out s))}"
  using assms by (rule Recon_init_work_list)

theorem satisfied_by_recon_output_only_witness:
  "distinct (System_process_list (ex_params [1, 2, 3]))
   \<and> sorted_wrt (<) (labels (stored_frame P_world))
   \<and> Recon_init [''ts''] (ex_params [1, 2, 3]) P_world = (Inr P_recon, P_world1)
   \<and> set (process_list P_recon) = {1, 3}"
proof -
  have sl: "sorted_wrt (<) (labels (stored_frame P_world))"
    by (simp add: P_world_def ex_world_def stored_frame_def labels_def)
  have "set (process_list P_recon) = set [1, 3]"
    using satisfied_by_recon_output_only [OF ex_distinct sl P_init]
    by (simp add: P_recon_def)
  then show ?thesis
    using ex_distinct sl P_init by simp
qed

text \<open>
  Claim C4. For a requested list without repetition and a stored frame whose labels
  increase, when the constructor returns: a requested tilt series whose aligned and
  reconstructed files are both on disk and whose two paths are recorded in a row of the
  stored record is not in the work list.
\<close>

theorem no_double_processing:
  assumes "distinct (System_process_list p)"
    and "sorted_wrt (<) (labels (stored_frame w))"
    and "Recon_init mc p w = (Inr s, w1)"
    and "x \<in> set (System_process_list p)"
    and "isfile w (align_output (expected_row p x))"
    and "isfile w (recon_output (expected_row p x))"
    and "r \<in> set (rows (stored_frame w))"
    and "align_output r = align_output (expected_row p x)"
    and "recon_output r = recon_output (expected_row p x)"
  shows "x \<notin> set (process_list s)"
proof -
  have "r \<in> set (rows (meta_out s))"
    using assms(6,7,9) by (simp add: rows_meta_out_init [OF assms(1-3)] set_unique)
  then have "recon_output (expected_row p x) \<in> recon_output ` set (rows (meta_out s))"
    using assms(9) by (metis imageI)
  then show ?thesis
    by (simp add: Recon_init_work_list [OF assms(1-3)])
qed

theorem no_double_processing_witness:
  "distinct (System_process_list (ex_params [1, 2, 3]))
   \<and> sorted_wrt (<) (labels (stored_frame B_world))
   \<and> Recon_init [''ts''] (ex_params [1, 2, 3]) B_world = (Inr B_recon, B_world1)
   \<and> isfile B_world ''o/r_02/r_02_ali.mrc'' \<and> isfile B_world ''o/r_02/r_02_rec.mrc''
   \<and> Row 2 ''o/r_02/r_02_ali.mrc'' ''o/r_02/r_02_rec.mrc'' \<in> set (rows (stored_frame B_world))
   \<and> 2 \<notin> set (process_list B_recon)"
proof -
  have sl: "sorted_wrt (<) (labels (stored_frame B_world))"
    by (simp add: B_world_def ex_world_def stored_frame_def labels_def)
  have x: "2 \<in> set (System_process_list (ex_params [1, 2, 3]))"
    by (simp add: ex_params_def)
  have a: "isfile B_world (align_output (expected_row (ex_params [1, 2, 3]) 2))"
    and b: "isfile B_world (recon_output (expected_row (ex_params [1, 2, 3]) 2))"
    by (simp_all add: ex_expected_row_2 B_world_def ex_world_def isfile_def)
  have r: "Row 2 ''o/r_02/r_02_ali.mrc'' ''o/r_02/r_02_rec.mrc'' \<in> set (rows (stored_frame B_world))"
    by (simp add: B_world_def ex_world_def stored_frame_def rows_def)
  have "2 \<notin> set (process_list B_recon)"
    using no_double_processing [OF ex_distinct sl B_init x a b r]
    by (simp add: ex_expected_row_2)
  then show ?thesis
    using ex_distinct sl B_init a b r by (simp add: ex_expected_row_2)
qed

subsection \<open>Running the constructor twice\<close>

text \<open>
  Claim C5. The reconciliation reads the requested list, the stored record and the files on
  disk, and writes none of them: the constructor leaves the files and the stored record as
  they were, and run again in the world it leaves (with the same parameters) it returns the
  same result, hence the same pruned record and the same work list, and leaves the same
  world.
\<close>

theorem reconciliation_idempotent:
  "Recon_init mc p (snd (Recon_init mc p w)) = Recon_init mc p w
   \<and> files (snd (Recon_init mc p w)) = files w
   \<and> mdout (snd (Recon_init mc p w)) = mdout w"
  by (simp add: Recon_init_eq world_dirs_irrelevant Un_assoc)

subsection \<open>Duplicate rows\<close>

lemma rows_update_recon_metadata:
  "rows (meta_out (update_recon_metadata w s)) =
     unique (rows (meta_out s) @ filter (\<lambda>r. isfile w (recon_output r)) (rows (recon_images s)))"
  by (simp add: update_recon_metadata_def drop_duplicates_def rows_drop_dups rows_ignore_index
      unique_def rows_filter [of "\<lambda>r. isfile w (recon_output r)"])

lemma pending_update_recon_metadata:
  "rows (recon_images (update_recon_metadata w s)) =
     filter (\<lambda>r. \<not> isfile w (recon_output r)) (rows (recon_images s))"
  by (simp add: update_recon_metadata_def rows_filter [of "\<lambda>r. \<not> isfile w (recon_output r)"])

lemma distinct_update_recon_metadata: "distinct (rows (meta_out (update_recon_metadata w s)))"
  by (simp add: rows_update_recon_metadata unique_def distinct_keep_first)

lemma unique_rev_remdups: "unique xs = rev (remdups (rev xs))"
  by (simp add: unique_def keep_first_rev_remdups)

lemma prune_work_list_meta_out: "prune_work_list s0 = Inr s \<Longrightarrow> meta_out s = meta_out s0"
  by (auto simp: prune_work_list_def Let_def split: sum.splits)

lemma check_reconned_images_distinct:
  assumes "check_reconned_images mc p w s0 = Inr s"
  shows "distinct (rows (meta_out s))"
proof -
  from assms obtain mo where p1: "prune_record mc (System_process_list p) w (load_record w) = Inr mo"
    and p2: "prune_work_list (s0\<lparr>meta_out := mo\<rparr>) = Inr s"
    by (auto simp: check_reconned_images_def split: sum.splits)
  from p1 distinct_load_record have "distinct (rows mo)" by (rule prune_record_distinct)
  with prune_work_list_meta_out [OF p2] show ?thesis by simp
qed

lemma distinct_meta_out_init:
  assumes "Recon_init mc p w = (Inr s, w1)"
  shows "distinct (rows (meta_out s))"
  using assms unfolding Recon_init_eq by (auto dest: check_reconned_images_distinct)

lemma recon_loop_step:
  assumes "subprocess_run tool t w = (cp, w1)"
  shows "recon_loop (subprocess_run tool) (t # rest) s w =
           recon_loop (subprocess_run tool) rest
             (update_recon_metadata w1 (s\<lparr>stdout := cp_stdout cp\<rparr>))
             (export_metadata (update_recon_metadata w1 (s\<lparr>stdout := cp_stdout cp\<rparr>)) w1)"
proof -
  from assms have "cp_stderr cp = None" by (auto simp: subprocess_run_def Let_def)
  then show ?thesis by (simp add: assms after_invocation_no_stderr)
qed

lemma subprocess_run_mdout: "mdout (snd (subprocess_run tool t w)) = mdout w"
  by (simp add: subprocess_run_def Let_def)

lemma recon_loop_persisted_distinct:
  "mdout (snd (recon_loop (subprocess_run tool) l s w)) = mdout w
   \<or> (\<exists>f. mdout (snd (recon_loop (subprocess_run tool) l s w)) = Some f \<and> distinct (rows f))"
proof (induction l arbitrary: s w)
  case Nil
  then show ?case by simp
next
  case (Cons t l)
  obtain cp w1 where run: "subprocess_run tool t w = (cp, w1)" by (cases "subprocess_run tool t w")
  let ?s2 = "update_recon_metadata w1 (s\<lparr>stdout := cp_stdout cp\<rparr>)"
  let ?w2 = "export_metadata ?s2 w1"
  have m: "mdout ?w2 = Some (meta_out ?s2)" by (simp add: export_metadata_def)
  have d: "distinct (rows (meta_out ?s2))" by (rule distinct_update_recon_metadata)
  from Cons.IH [of ?s2 ?w2] m d
  have "\<exists>f. mdout (snd (recon_loop (subprocess_run tool) l ?s2 ?w2)) = Some f \<and> distinct (rows f)"
    by auto
  then show ?case by (simp only: recon_loop_step [OF run]) simp
qed

lemma D_init: "Recon_init [''ts''] (ex_params [1, 2, 3]) D_world = (Inr B_recon, D_world1)"
  by (simp add: eval_defs D_world_def D_world1_def B_recon_def upt_rec insert_commute)

text \<open>
  Claim C7. Loading drops the repeated rows of the stored frame and keeps the first
  occurrence of each row, in order (the list reversed, stripped of repetitions keeping the
  last, and reversed again). When the constructor returns, the record it holds has no two
  equal rows; \<^verbatim>\<open>update_recon_metadata\<close> yields a record without two equal rows, again
  the first occurrences in order of the old record followed by the new rows; and the
  record that \<^verbatim>\<open>recon_stack\<close> leaves on disk is either the one it found or one without
  two equal rows.
\<close>

theorem no_duplicate_rows:
  assumes "Recon_init mc p w = (Inr s, w1)"
  shows "rows (load_record w) = rev (remdups (rev (rows (stored_frame w))))
       \<and> distinct (rows (meta_out s))
       \<and> rows (meta_out (update_recon_metadata v s')) =
           rev (remdups (rev (rows (meta_out s')
             @ filter (\<lambda>r. isfile v (recon_output r)) (rows (recon_images s')))))
       \<and> distinct (rows (meta_out (update_recon_metadata v s')))
       \<and> (mdout (snd (recon_stack tool s w1)) = mdout w1
          \<or> (\<exists>f. mdout (snd (recon_stack tool s w1)) = Some f \<and> distinct (rows f)))"
proof -
  have "mdout (snd (recon_stack tool s w1)) = mdout (get_adoc w1)
        \<or> (\<exists>f. mdout (snd (recon_stack tool s w1)) = Some f \<and> distinct (rows f))"
    unfolding recon_stack_def by (rule recon_loop_persisted_distinct)
  then have "mdout (snd (recon_stack tool s w1)) = mdout w1
        \<or> (\<exists>f. mdout (snd (recon_stack tool s w1)) = Some f \<and> distinct (rows f))"
    by (simp add: get_adoc_def)
  then show ?thesis
    using distinct_meta_out_init [OF assms]
    by (simp add: rows_load_record rows_update_recon_metadata unique_rev_remdups
        distinct_update_recon_metadata [unfolded rows_update_recon_metadata unique_rev_remdups])
qed

theorem no_duplicate_rows_witness:
  "Recon_init [''ts''] (ex_params [1, 2, 3]) D_world = (Inr B_recon, D_world1)
   \<and> rows (stored_frame D_world) =
       [Row 2 ''o/r_02/r_02_ali.mrc'' ''o/r_02/r_02_rec.mrc'',
        Row 2 ''o/r_02/r_02_ali.mrc'' ''o/r_02/r_02_rec.mrc'']
   \<and> rows (load_record D_world) = [Row 2 ''o/r_02/r_02_ali.mrc'' ''o/r_02/r_02_rec.mrc'']
   \<and> distinct (rows (meta_out B_recon))"
proof -
  note t = no_duplicate_rows [OF D_init]
  have s: "rows (stored_frame D_world) =
       [Row 2 ''o/r_02/r_02_ali.mrc'' ''o/r_02/r_02_rec.mrc'',
        Row 2 ''o/r_02/r_02_ali.mrc'' ''o/r_02/r_02_rec.mrc'']"
    by (simp add: D_world_def ex_world_def stored_frame_def rows_def)
  have l: "rows (load_record D_world) = [Row 2 ''o/r_02/r_02_ali.mrc'' ''o/r_02/r_02_rec.mrc'']"
    using t [THEN conjunct1] by (simp add: s)
  show ?thesis
    by (intro conjI D_init s l t [THEN conjunct2, THEN conjunct1])
qed

subsection \<open>One step of the loop\<close>

lemma A_init: "Recon_init [''ts''] (ex_params [1, 2, 3]) A_world = (Inr A_recon, A_world1)"
  by (simp add: eval_defs A_world_def A_world1_def A_recon_def upt_rec insert_commute)

lemma recon_loop_append:
  "recon_loop run (pre @ post) s w =
     (case recon_loop run pre s w of
        (Inl e, w') \<Rightarrow> (Inl e, w')
      | (Inr s', w') \<Rightarrow> recon_loop run post s' w')"
  by (induction pre arbitrary: s w) (auto split: prod.splits sum.splits)

lemma recon_loop_subprocess_Cons:
  "recon_loop (subprocess_run tool) (t # rest) s w =
     recon_loop (subprocess_run tool) rest
       (update_recon_metadata (snd (subprocess_run tool t w))
          (s\<lparr>stdout := cp_stdout (fst (subprocess_run tool t w))\<rparr>))
       (export_metadata
          (update_recon_metadata (snd (subprocess_run tool t w))
             (s\<lparr>stdout := cp_stdout (fst (subprocess_run tool t w))\<rparr>))
          (snd (subprocess_run tool t w)))"
  by (rule recon_loop_step) simp

lemma pending_not_recorded_after_init:
  assumes "distinct (System_process_list p)"
    and "sorted_wrt (<) (labels (stored_frame w))"
    and "Recon_init mc p w = (Inr s, w1)"
  shows "\<forall>r \<in> set (rows (recon_images s)).
           recon_output r \<notin> recon_output ` set (rows (meta_out s))"
  unfolding Recon_init_char(2) [OF assms]
  by (auto simp: rows_def)

lemma recon_loop_single:
  "recon_loop (subprocess_run tool) [t] s w =
     (Inr (update_recon_metadata (snd (subprocess_run tool t w))
             (s\<lparr>stdout := cp_stdout (fst (subprocess_run tool t w))\<rparr>)),
      export_metadata
        (update_recon_metadata (snd (subprocess_run tool t w))
           (s\<lparr>stdout := cp_stdout (fst (subprocess_run tool t w))\<rparr>))
        (snd (subprocess_run tool t w)))"
  by (simp only: recon_loop_subprocess_Cons recon_loop.simps(1))

lemma pending_stay_unrecorded:
  assumes "\<forall>r \<in> set (rows (recon_images s)). recon_output r \<notin> recon_output ` set (rows (meta_out s))"
  shows "\<forall>r \<in> set (rows (recon_images (update_recon_metadata v s))).
           recon_output r \<notin> recon_output ` set (rows (meta_out (update_recon_metadata v s)))"
proof
  fix r
  assume "r \<in> set (rows (recon_images (update_recon_metadata v s)))"
  then have r: "r \<in> set (rows (recon_images s))" and nf: "\<not> isfile v (recon_output r)"
    by (simp_all add: pending_update_recon_metadata)
  show "recon_output r \<notin> recon_output ` set (rows (meta_out (update_recon_metadata v s)))"
  proof
    assume "recon_output r \<in> recon_output ` set (rows (meta_out (update_recon_metadata v s)))"
    then obtain q where q: "q \<in> set (rows (meta_out (update_recon_metadata v s)))"
      and e: "recon_output r = recon_output q" by blast
    from q have "q \<in> set (rows (meta_out s))
                 \<or> (q \<in> set (rows (recon_images s)) \<and> isfile v (recon_output q))"
      by (auto simp: rows_update_recon_metadata set_unique)
    then show False
    proof
      assume "q \<in> set (rows (meta_out s))"
      then have "recon_output q \<in> recon_output ` set (rows (meta_out s))" by (rule imageI)
      with assms r e show False by auto
    next
      assume "q \<in> set (rows (recon_images s)) \<and> isfile v (recon_output q)"
      with nf e show False by simp
    qed
  qed
qed

lemma A_first_turn:
  "recon_loop (subprocess_run (ex_tool 0 0 [])) [1] A_recon A_world1 = (Inr A1_recon, A1_world)"
  by (simp add: subprocess_run_def after_invocation_def truthy_def update_recon_metadata_def
      export_metadata_def ex_tool_def A_recon_def A1_recon_def A_world1_def A1_world_def A_world_def
      ex_world_def isfile_def rows_def ignore_index_def drop_duplicates_def recon_row_def
      subfolder_of_def format_02d_def decimal.simps digit_char_def Let_def upt_rec)

lemma A_next_init:
  "Recon_init [''ts''] (ex_params [1, 2, 3]) A1_world = (Inr A2_recon, A1_world)"
  by (simp add: eval_defs A1_world_def A_world1_def A_world_def A2_recon_def A_recon_def upt_rec
      insert_commute)

lemma ex_expected_row_3:
  "expected_row (ex_params pl) 3 = Row 3 ''o/r_03/r_03_ali.mrc'' ''o/r_03/r_03_rec.mrc''"
  by (simp add: eval_defs expected_row_def)

text \<open>
  Claim C6. One turn of the loop of \<^verbatim>\<open>recon_stack\<close>, from a state in which no pending
  row has its reconstruction path in the record (as after the constructor, and after every
  turn). The turn on the tilt series \<open>t\<close> returns a state \<open>s2\<close> and a world \<open>w2\<close>:
  the tool has been run once more, on \<open>t\<close>, and its files are on disk; the record of
  \<open>s2\<close> is the old record followed by exactly the pending rows whose reconstruction is
  now on disk; the rows still pending are those whose reconstruction is not on disk, and
  none of their paths is in the record; the record is on disk in \<open>w2\<close>. The loop on a
  longer list is this turn followed by the loop on the rest from \<open>s2\<close> and \<open>w2\<close>,
  for any way of invoking the tool: the next invocation starts in the world where the
  record is already written. When the constructor is run again in \<open>w2\<close> and returns,
  every requested tilt series whose row is still pending is in its work list.
\<close>

theorem record_updated_after_each_invocation:
  assumes "distinct (System_process_list p)"
    and "\<forall>r \<in> set (rows (recon_images s)). recon_output r \<notin> recon_output ` set (rows (meta_out s))"
    and "Recon_init mc p (snd (recon_loop (subprocess_run tool) [t] s w)) = (Inr s', w')"
  shows "\<exists>s2 w2. recon_loop (subprocess_run tool) [t] s w = (Inr s2, w2)
       \<and> files w2 = tr_files (tool t (files w))
       \<and> calls w2 = calls w @ [t]
       \<and> rows (meta_out s2) =
           unique (rows (meta_out s) @ filter (\<lambda>r. isfile w2 (recon_output r)) (rows (recon_images s)))
       \<and> set (rows (meta_out s2)) =
           set (rows (meta_out s)) \<union> {r \<in> set (rows (recon_images s)). isfile w2 (recon_output r)}
       \<and> rows (recon_images s2) = filter (\<lambda>r. \<not> isfile w2 (recon_output r)) (rows (recon_images s))
       \<and> mdout w2 = Some (meta_out s2)
       \<and> (\<forall>r \<in> set (rows (recon_images s2)).
            recon_output r \<notin> recon_output ` set (rows (meta_out s2)))
       \<and> (\<forall>u \<in> set (System_process_list p).
            expected_row p u \<in> set (rows (recon_images s2)) \<longrightarrow> u \<in> set (process_list s'))
       \<and> (\<forall>run rest. recon_loop run (t # rest) s w =
            (case recon_loop run [t] s w of
               (Inl e, v) \<Rightarrow> (Inl e, v)
             | (Inr s3, v) \<Rightarrow> recon_loop run rest s3 v))"
proof -
  let ?w1 = "snd (subprocess_run tool t w)"
  let ?s2 = "update_recon_metadata ?w1 (s\<lparr>stdout := cp_stdout (fst (subprocess_run tool t w))\<rparr>)"
  let ?w2 = "export_metadata ?s2 ?w1"
  have loop: "recon_loop (subprocess_run tool) [t] s w = (Inr ?s2, ?w2)"
    by (rule recon_loop_single)
  have f: "files ?w2 = tr_files (tool t (files w))"
    by (simp add: export_metadata_def subprocess_run_def Let_def)
  have c: "calls ?w2 = calls w @ [t]"
    by (simp add: export_metadata_def subprocess_run_def Let_def)
  have i: "isfile ?w2 = isfile ?w1"
    by (simp add: isfile_def [abs_def] export_metadata_def)
  have m: "rows (meta_out ?s2) =
           unique (rows (meta_out s) @ filter (\<lambda>r. isfile ?w2 (recon_output r)) (rows (recon_images s)))"
    unfolding i by (simp add: rows_update_recon_metadata)
  have sm: "set (rows (meta_out ?s2)) =
           set (rows (meta_out s)) \<union> {r \<in> set (rows (recon_images s)). isfile ?w2 (recon_output r)}"
    unfolding m by (auto simp: set_unique)
  have ri: "rows (recon_images ?s2) = filter (\<lambda>r. \<not> isfile ?w2 (recon_output r)) (rows (recon_images s))"
    unfolding i by (simp add: pending_update_recon_metadata)
  have md: "mdout ?w2 = Some (meta_out ?s2)"
    by (simp add: export_metadata_def)
  have "\<forall>r \<in> set (rows (recon_images (s\<lparr>stdout := cp_stdout (fst (subprocess_run tool t w))\<rparr>))).
          recon_output r \<notin> recon_output ` set (rows (meta_out (s\<lparr>stdout := cp_stdout (fst (subprocess_run tool t w))\<rparr>)))"
    using assms(2) by simp
  then have inv2: "\<forall>r \<in> set (rows (recon_images ?s2)).
            recon_output r \<notin> recon_output ` set (rows (meta_out ?s2))"
    by (rule pending_stay_unrecorded)
  have nxt: "Recon_init mc p ?w2 = (Inr s', w')"
    using assms(3) by (simp only: loop snd_conv)
  have st: "stored_frame ?w2 = meta_out ?s2"
    by (simp add: stored_frame_def md)
  have sl: "sorted_wrt (<) (labels (stored_frame ?w2))"
    unfolding st by (rule exported_labels_increase)
  have sub: "set (rows (meta_out s')) \<subseteq> set (rows (meta_out ?s2))"
    unfolding rows_meta_out_init [OF assms(1) sl nxt] st by (auto simp: set_unique)
  have again: "\<forall>u \<in> set (System_process_list p).
            expected_row p u \<in> set (rows (recon_images ?s2)) \<longrightarrow> u \<in> set (process_list s')"
  proof (intro ballI impI)
    fix u
    assume u: "u \<in> set (System_process_list p)"
      and pend: "expected_row p u \<in> set (rows (recon_images ?s2))"
    from inv2 pend have "recon_output (expected_row p u) \<notin> recon_output ` set (rows (meta_out ?s2))"
      by blast
    with sub have "recon_output (expected_row p u) \<notin> recon_output ` set (rows (meta_out s'))"
      by blast
    with u show "u \<in> set (process_list s')"
      by (simp add: Recon_init_work_list [OF assms(1) sl nxt])
  qed
  have comp: "\<forall>run rest. recon_loop run (t # rest) s w =
            (case recon_loop run [t] s w of
               (Inl e, v) \<Rightarrow> (Inl e, v)
             | (Inr s3, v) \<Rightarrow> recon_loop run rest s3 v)"
  proof (intro allI)
    fix run rest
    have "recon_loop run ([t] @ rest) s w =
            (case recon_loop run [t] s w of
               (Inl e, v) \<Rightarrow> (Inl e, v)
             | (Inr s3, v) \<Rightarrow> recon_loop run rest s3 v)"
      by (rule recon_loop_append)
    then show "recon_loop run (t # rest) s w =
            (case recon_loop run [t] s w of
               (Inl e, v) \<Rightarrow> (Inl e, v)
             | (Inr s3, v) \<Rightarrow> recon_loop run rest s3 v)"
      by (simp only: append.simps)
  qed
  show ?thesis
    by (intro exI [of _ ?s2] exI [of _ ?w2] conjI loop f c m sm ri md inv2 again comp)
qed

theorem record_updated_after_each_invocation_witness:
  "distinct (System_process_list (ex_params [1, 2, 3]))
   \<and> Recon_init [''ts''] (ex_params [1, 2, 3])
         (snd (recon_loop (subprocess_run (ex_tool 0 0 [])) [1] A_recon A_world1)) =
       (Inr A2_recon, A1_world)
   \<and> recon_loop (subprocess_run (ex_tool 0 0 [])) [1] A_recon A_world1 = (Inr A1_recon, A1_world)
   \<and> rows (meta_out A1_recon) = [Row 1 ''o/r_01/r_01_ali.mrc'' ''o/r_01/r_01_rec.mrc'']
   \<and> rows (recon_images A1_recon) =
       [Row 2 ''o/r_02/r_02_ali.mrc'' ''o/r_02/r_02_rec.mrc'',
        Row 3 ''o/r_03/r_03_ali.mrc'' ''o/r_03/r_03_rec.mrc'']
   \<and> mdout A1_world = Some (meta_out A1_recon)
   \<and> calls A1_world = [1]
   \<and> 2 \<in> set (process_list A2_recon) \<and> 3 \<in> set (process_list A2_recon)"
proof -
  have sl: "sorted_wrt (<) (labels (stored_frame A_world))"
    by (simp add: A_world_def ex_world_def stored_frame_def labels_def)
  note inv = pending_not_recorded_after_init [OF ex_distinct sl A_init]
  have nxt: "Recon_init [''ts''] (ex_params [1, 2, 3])
         (snd (recon_loop (subprocess_run (ex_tool 0 0 [])) [1] A_recon A_world1)) =
       (Inr A2_recon, A1_world)"
    by (simp only: A_first_turn snd_conv A_next_init)
  from record_updated_after_each_invocation [OF ex_distinct inv nxt]
  obtain s2 w2 where l: "recon_loop (subprocess_run (ex_tool 0 0 [])) [1] A_recon A_world1 = (Inr s2, w2)"
    and md: "mdout w2 = Some (meta_out s2)"
    and c: "calls w2 = calls A_world1 @ [1]"
    and again: "\<forall>u \<in> set (System_process_list (ex_params [1, 2, 3])).
            expected_row (ex_params [1, 2, 3]) u \<in> set (rows (recon_images s2))
            \<longrightarrow> u \<in> set (process_list A2_recon)"
    by blast
  from l have s2: "s2 = A1_recon" and w2: "w2 = A1_world"
    by (simp_all only: A_first_turn prod.inject sum.inject)
  have m: "rows (meta_out A1_recon) = [Row 1 ''o/r_01/r_01_ali.mrc'' ''o/r_01/r_01_rec.mrc'']"
    by (simp add: A1_recon_def rows_def)
  have r: "rows (recon_images A1_recon) =
       [Row 2 ''o/r_02/r_02_ali.mrc'' ''o/r_02/r_02_rec.mrc'',
        Row 3 ''o/r_03/r_03_ali.mrc'' ''o/r_03/r_03_rec.mrc'']"
    by (simp add: A1_recon_def rows_def)
  have c1: "calls A1_world = [1]"
    using c by (simp add: w2 A_world1_def A_world_def ex_world_def)
  have md1: "mdout A1_world = Some (meta_out A1_recon)"
    using md by (simp only: s2 w2)
  have two: "2 \<in> set (process_list A2_recon)"
    using again [unfolded s2, THEN bspec, of 2] by (simp add: ex_params_def ex_expected_row_2 [unfolded ex_params_def] r)
  have three: "3 \<in> set (process_list A2_recon)"
    using again [unfolded s2, THEN bspec, of 3] by (simp add: ex_params_def ex_expected_row_3 [unfolded ex_params_def] r)
  show ?thesis
    by (intro conjI ex_distinct nxt A_first_turn m r md1 c1 two three)
qed

subsection \<open>Failure of the tool\<close>

lemma A_status_run_mdout:
  "mdout (snd (recon_stack (ex_tool 2 1 []) A_recon A_world1)) =
     Some [(0, Row 1 ''o/r_01/r_01_ali.mrc'' ''o/r_01/r_01_rec.mrc''),
           (1, Row 3 ''o/r_03/r_03_ali.mrc'' ''o/r_03/r_03_rec.mrc'')]"
  by (simp add: recon_stack_def get_adoc_def recon_loop_subprocess_Cons subprocess_run_def
      update_recon_metadata_def export_metadata_def ex_tool_def A_recon_def A_world1_def
      A_world_def ex_world_def isfile_def rows_def ignore_index_def drop_duplicates_def
      recon_row_def subfolder_of_def format_02d_def decimal.simps digit_char_def Let_def upt_rec
      del: recon_loop.simps(2))

text \<open>
  Claim C2, as the code has it. The loop never looks at the return code: it tests the
  attribute \<^verbatim>\<open>stderr\<close> of the completed process only. In the counterexample the tool
  ends with status 1 (and an empty error stream) on tilt series 2: the run does not raise,
  the tool is run on tilt series 3 as well, and the record on disk holds the rows of tilt
  series 1 and 3.
\<close>

theorem status_alone_does_not_halt_counterexample:
  "Recon_init [''ts''] (ex_params [1, 2, 3]) A_world = (Inr A_recon, A_world1)
   \<and> tr_status (ex_tool 2 1 [] 2 {}) = 1 \<and> tr_stderr (ex_tool 2 1 [] 2 {}) = []
   \<and> \<not> isl (fst (recon_stack (ex_tool 2 1 []) A_recon A_world1))
   \<and> calls (snd (recon_stack (ex_tool 2 1 []) A_recon A_world1)) = [1, 2, 3]
   \<and> mdout (snd (recon_stack (ex_tool 2 1 []) A_recon A_world1)) =
       Some [(0, Row 1 ''o/r_01/r_01_ali.mrc'' ''o/r_01/r_01_rec.mrc''),
             (1, Row 3 ''o/r_03/r_03_ali.mrc'' ''o/r_03/r_03_rec.mrc'')]"
proof -
  from recon_loop_subprocess_calls [of "ex_tool 2 1 []" "process_list A_recon" A_recon "get_adoc A_world1"]
  have "\<not> isl (fst (recon_stack (ex_tool 2 1 []) A_recon A_world1))"
    and "calls (snd (recon_stack (ex_tool 2 1 []) A_recon A_world1)) = [1, 2, 3]"
    by (auto simp: recon_stack_def get_adoc_def A_recon_def A_world1_def A_world_def ex_world_def
        simp del: recon_loop.simps)
  moreover have "tr_status (ex_tool 2 1 [] 2 {}) = 1" "tr_stderr (ex_tool 2 1 [] 2 {}) = []"
    by (simp_all add: ex_tool_def)
  ultimately show ?thesis
    by (intro conjI A_init A_status_run_mdout)
qed

text \<open>
  Claim C2, amended. For any way \<open>run\<close> of invoking the tool: when the items before
  \<open>k\<close> have completed and the completed process of \<open>k\<close> carries a non-empty
  \<^verbatim>\<open>stderr\<close>, the loop raises \<^verbatim>\<open>ValueError\<close> at once: the tool is not run on the rest
  of the list, nothing is appended to the record and nothing is written, the world is the
  one the failed invocation left. When the \<^verbatim>\<open>stderr\<close> attribute is empty or absent, the
  loop updates the record, writes it and goes on, whatever the return code.
\<close>

theorem captured_stderr_halts_run:
  assumes "recon_loop run pre s w = (Inr s1, w1)"
    and "run k w1 = (cp, w2)"
  shows "(truthy (cp_stderr cp) \<longrightarrow>
            recon_loop run (pre @ k # rest) s w = (Inl (ValueError (returncode cp) k), w2))
       \<and> (\<not> truthy (cp_stderr cp) \<longrightarrow>
            recon_loop run (pre @ k # rest) s w =
              recon_loop run rest (update_recon_metadata w2 (s1\<lparr>stdout := cp_stdout cp\<rparr>))
                (export_metadata (update_recon_metadata w2 (s1\<lparr>stdout := cp_stdout cp\<rparr>)) w2))"
  by (simp add: recon_loop_append assms after_invocation_def Let_def)

lemma A_capture_first:
  "recon_loop (ex_capture (ex_tool 2 1 ''boom'')) [1] A_recon A_world1 = (Inr A1_recon, A1_world)"
  by (simp add: ex_capture_def after_invocation_def truthy_def update_recon_metadata_def
      export_metadata_def ex_tool_def A_recon_def A1_recon_def A_world1_def A1_world_def A_world_def
      ex_world_def isfile_def rows_def ignore_index_def drop_duplicates_def recon_row_def
      subfolder_of_def format_02d_def decimal.simps digit_char_def Let_def upt_rec)

lemma A_capture_second:
  "ex_capture (ex_tool 2 1 ''boom'') 2 A1_world =
     (\<lparr>returncode = 1, cp_stdout = Some ''out'', cp_stderr = Some ''boom''\<rparr>,
      A1_world\<lparr>calls := [1, 2]\<rparr>)"
  by (simp add: ex_capture_def ex_tool_def A1_world_def A_world1_def A_world_def ex_world_def Let_def)

theorem captured_stderr_halts_run_witness:
  "recon_loop (ex_capture (ex_tool 2 1 ''boom'')) [1] A_recon A_world1 = (Inr A1_recon, A1_world)
   \<and> ex_capture (ex_tool 2 1 ''boom'') 2 A1_world =
       (\<lparr>returncode = 1, cp_stdout = Some ''out'', cp_stderr = Some ''boom''\<rparr>,
        A1_world\<lparr>calls := [1, 2]\<rparr>)
   \<and> recon_loop (ex_capture (ex_tool 2 1 ''boom'')) ([1] @ 2 # [3]) A_recon A_world1 =
       (Inl (ValueError 1 2), A1_world\<lparr>calls := [1, 2]\<rparr>)
   \<and> mdout (A1_world\<lparr>calls := [1, 2]\<rparr>) =
       Some [(0, Row 1 ''o/r_01/r_01_ali.mrc'' ''o/r_01/r_01_rec.mrc'')]"
proof -
  have "recon_loop (ex_capture (ex_tool 2 1 ''boom'')) ([1] @ 2 # [3]) A_recon A_world1 =
       (Inl (ValueError 1 2), A1_world\<lparr>calls := [1, 2]\<rparr>)"
    using captured_stderr_halts_run [OF A_capture_first A_capture_second, of "[3]", THEN conjunct1]
    by (simp add: truthy_def del: recon_loop.simps append.simps)
  moreover have "mdout (A1_world\<lparr>calls := [1, 2]\<rparr>) =
       Some [(0, Row 1 ''o/r_01/r_01_ali.mrc'' ''o/r_01/r_01_rec.mrc'')]"
    by (simp add: A1_world_def)
  ultimately show ?thesis
    by (intro conjI A_capture_first A_capture_second)
qed

subsection \<open>The requested identifiers\<close>

lemma E_init: "Recon_init [] (ex_params []) (ex_world {} None) = (Inr E_recon, ex_world {} None)"
  by (simp add: eval_defs E_recon_def)

lemma N_init:
  "Recon_init [] (ex_params [- 1, 100]) (ex_world {} None) =
     (Inr N_recon, (ex_world {} None)\<lparr>dirs := {''o/r_-1'', ''o/r_100''}\<rparr>)"
  by (simp add: eval_defs N_recon_def upt_rec insert_commute)

text \<open>
  Claim C9, as the code has it. The constructor checks neither that the requested list is
  non-empty nor the form of its numbers, and the code has no \<^verbatim>\<open>ConfigurationError\<close>. With
  an empty list it returns, with an empty work list and \<^verbatim>\<open>no_processes\<close> set; with the
  list -1, 100 it returns, having created the directories \<^verbatim>\<open>o/r_-1\<close> and
  \<^verbatim>\<open>o/r_100\<close>.
\<close>

theorem construction_never_validates_counterexample:
  "Recon_init [] (ex_params []) (ex_world {} None) = (Inr E_recon, ex_world {} None)
   \<and> no_processes E_recon \<and> process_list E_recon = []
   \<and> Recon_init [] (ex_params [- 1, 100]) (ex_world {} None) =
       (Inr N_recon, (ex_world {} None)\<lparr>dirs := {''o/r_-1'', ''o/r_100''}\<rparr>)
   \<and> process_list N_recon = [- 1, 100]"
  using E_init N_init by (simp add: E_recon_def N_recon_def)

lemma merge_left_only_Nil: "merge_left_only L [] = map (\<lambda>r. True) L"
  by (induction L) simp_all

text \<open>
  Claim C9, amended. When no record file exists, the constructor returns for every list of
  requested numbers, empty or not: it has created one directory for each number, the record
  is empty, every requested number is pending, the work list is the sorted list of the
  distinct requested numbers, and \<^verbatim>\<open>no_processes\<close> is set exactly when the list is
  empty.
\<close>

theorem construction_accepts_any_ids:
  assumes "mdout w = None"
  shows "\<exists>s. Recon_init mc p w =
              (Inr s, w\<lparr>dirs := dirs w \<union>
                 subfolder_of (strip_trailing (CHR ''/'') (output_path p))
                   (strip_trailing (CHR ''_'') (output_rootname p))
                   (strip_trailing (CHR ''_'') (output_suffix p)) ` set (System_process_list p)\<rparr>)
           \<and> process_list s = unique (sort (System_process_list p))
           \<and> no_processes s = (System_process_list p = [])
           \<and> meta_out s = []
           \<and> rows (recon_images s) = map (expected_row p) (System_process_list p)"
proof -
  let ?ri = "ignore_index (map (expected_row p) (System_process_list p))"
  have l: "load_record w = []"
    using assms by (simp add: load_record_def stored_frame_def drop_duplicates_def)
  have b: "bool_index ?ri (merge_left_only (rows ?ri) []) = Inr (filter (\<lambda>x. snd x \<notin> set []) ?ri)"
    by (rule bool_index_aligned) (simp_all add: labels_ignore_index length_ignore_index)
  have ts: "map ts (map (expected_row p) (System_process_list p)) = System_process_list p"
    by (simp add: comp_def ts_expected_row)
  show ?thesis
    using b ts
    by (simp add: Recon_init_eq check_reconned_images_def l prune_record_def prune_work_list_def
        rows_ignore_index length_ignore_index rows_def [of "[]"] Let_def)
qed

theorem construction_accepts_any_ids_witness:
  "mdout (ex_world {} None) = None
   \<and> Recon_init [] (ex_params [- 1, 100]) (ex_world {} None) =
       (Inr N_recon, (ex_world {} None)\<lparr>dirs := {''o/r_-1'', ''o/r_100''}\<rparr>)
   \<and> process_list N_recon = unique (sort [- 1, 100])
   \<and> no_processes N_recon = False"
proof -
  have m: "mdout (ex_world {} None) = None" by (simp add: ex_world_def)
  from construction_accepts_any_ids [OF m, of "[]" "ex_params [- 1, 100]"]
  obtain s where "Recon_init [] (ex_params [- 1, 100]) (ex_world {} None) =
       (Inr s, (ex_world {} None)\<lparr>dirs := dirs (ex_world {} None) \<union>
                 subfolder_of (strip_trailing (CHR ''/'') (output_path (ex_params [- 1, 100])))
                   (strip_trailing (CHR ''_'') (output_rootname (ex_params [- 1, 100])))
                   (strip_trailing (CHR ''_'') (output_suffix (ex_params [- 1, 100])))
                   ` set (System_process_list (ex_params [- 1, 100]))\<rparr>)"
    and "process_list s = unique (sort (System_process_list (ex_params [- 1, 100])))"
    and "no_processes s = (System_process_list (ex_params [- 1, 100]) = [])"
    by blast
  with N_init m show ?thesis by (simp add: ex_params_def)
qed

subsection \<open>Trailing separators\<close>

lemma strip_trailing_snoc: "strip_trailing c (s @ [c]) = s"
  by (simp add: strip_trailing_def ends_with_def)

lemma strip_trailing_none: "\<not> ends_with c s \<Longrightarrow> strip_trailing c s = s"
  by (simp add: strip_trailing_def)

text \<open>
  Claim C10, as the code has it. One separator is stripped, not more: the root names
  \<^verbatim>\<open>r__\<close> and \<^verbatim>\<open>r_\<close> differ only in one trailing separator, and the directory of
  tilt series 1 is \<^verbatim>\<open>o/r__01\<close> for the first and \<^verbatim>\<open>o/r_01\<close> for the second.
\<close>

theorem double_separator_counterexample:
  "dirs (snd (get_internal_metadata
       \<lparr>output_path = ''o'', output_rootname = ''r__'', output_suffix = [],
        System_process_list = [1]\<rparr> (ex_world {} None))) = {''o/r__01''}
   \<and> dirs (snd (get_internal_metadata
       \<lparr>output_path = ''o'', output_rootname = ''r_'', output_suffix = [],
        System_process_list = [1]\<rparr> (ex_world {} None))) = {''o/r_01''}
   \<and> {''o/r__01''} \<noteq> {''o/r_01''}"
  by (simp add: eval_defs)

text \<open>
  Claim C10, amended. When the output path \<open>b\<close>, the root name \<open>r\<close> and the suffix
  \<open>sf\<close> do not end in their separator, a configuration that gives each of them as it is
  or followed by one separator derives what the configuration \<open>b\<close>, \<open>r\<close>, \<open>sf\<close>
  derives: the same normalised components, the same directories and the same rows of
  paths, for every requested list.
\<close>

theorem trailing_separator_stripped:
  assumes "\<not> ends_with (CHR ''/'') b" and "\<not> ends_with (CHR ''_'') r" and "\<not> ends_with (CHR ''_'') sf"
    and "output_path p = b \<or> output_path p = b @ ''/''"
    and "output_rootname p = r \<or> output_rootname p = r @ ''_''"
    and "output_suffix p = sf \<or> output_suffix p = sf @ ''_''"
  shows "get_internal_metadata p w =
           get_internal_metadata
             \<lparr>output_path = b, output_rootname = r, output_suffix = sf,
              System_process_list = System_process_list p\<rparr> w
       \<and> fst (get_internal_metadata p w) =
           (b, r, sf, fold (\<lambda>t. dict_set t (subfolder_of b r sf t)) (System_process_list p) [],
            ignore_index (map (recon_row b r sf) (System_process_list p)))
       \<and> dirs (snd (get_internal_metadata p w)) =
           dirs w \<union> subfolder_of b r sf ` set (System_process_list p)"
proof -
  have "strip_trailing (CHR ''/'') (output_path p) = b"
    using assms(1,4) strip_trailing_snoc [of "CHR ''/''" b] by (auto simp: strip_trailing_none)
  moreover have "strip_trailing (CHR ''_'') (output_rootname p) = r"
    using assms(2,5) strip_trailing_snoc [of "CHR ''_''" r] by (auto simp: strip_trailing_none)
  moreover have "strip_trailing (CHR ''_'') (output_suffix p) = sf"
    using assms(3,6) strip_trailing_snoc [of "CHR ''_''" sf] by (auto simp: strip_trailing_none)
  ultimately show ?thesis
    using assms(1-3)
    by (simp add: get_internal_metadata_def Let_def fold_makedirs strip_trailing_none)
qed

theorem trailing_separator_stripped_witness:
  "\<not> ends_with (CHR ''/'') ''o'' \<and> \<not> ends_with (CHR ''_'') ''r'' \<and> \<not> ends_with (CHR ''_'') []
   \<and> output_path (ex_params [1, 2]) = ''o'' @ ''/''
   \<and> output_rootname (ex_params [1, 2]) = ''r'' @ ''_''
   \<and> output_suffix (ex_params [1, 2]) = []
   \<and> get_internal_metadata (ex_params [1, 2]) (ex_world {} None) =
       get_internal_metadata
         \<lparr>output_path = ''o'', output_rootname = ''r'', output_suffix = [],
          System_process_list = System_process_list (ex_params [1, 2])\<rparr> (ex_world {} None)
   \<and> dirs (snd (get_internal_metadata (ex_params [1, 2]) (ex_world {} None))) =
       {''o/r_01'', ''o/r_02''}"
proof -
  have a: "\<not> ends_with (CHR ''/'') ''o''" "\<not> ends_with (CHR ''_'') ''r''" "\<not> ends_with (CHR ''_'') []"
    by (simp_all add: ends_with_def)
  have b: "output_path (ex_params [1, 2]) = ''o'' \<or> output_path (ex_params [1, 2]) = ''o'' @ ''/''"
    "output_rootname (ex_params [1, 2]) = ''r'' \<or> output_rootname (ex_params [1, 2]) = ''r'' @ ''_''"
    "output_suffix (ex_params [1, 2]) = [] \<or> output_suffix (ex_params [1, 2]) = [] @ ''_''"
    by (simp_all add: ex_params_def)
  note t = trailing_separator_stripped [OF a b, of "ex_world {} None"]
  have d: "dirs (snd (get_internal_metadata (ex_params [1, 2]) (ex_world {} None))) =
       {''o/r_01'', ''o/r_02''}"
    unfolding t [THEN conjunct2, THEN conjunct2]
    by (simp add: ex_params_def ex_world_def subfolder_of_def format_02d_def decimal.simps
        digit_char_def insert_commute)
  have p: "output_path (ex_params [1, 2]) = ''o'' @ ''/''"
    "output_rootname (ex_params [1, 2]) = ''r'' @ ''_''"
    "output_suffix (ex_params [1, 2]) = []"
    by (simp_all add: ex_params_def)
  show ?thesis
    by (intro conjI a p d t [THEN conjunct1])
qed

subsection \<open>Outside the hypotheses\<close>

text \<open>
  Why the theorems on the two passes ask for a requested list without repetition: with the
  list 1, 1, 2, 4, 5 and a record that holds tilt series 1 and 5 (both on disk), the merge
  of the second pass has more rows than \<^verbatim>\<open>_recon_images\<close>, the boolean series is read by
  label, and the work list that results is 5 alone.
\<close>

lemma repeated_id_misaligned:
  "fst (Recon_init [''ts''] (ex_params [1, 1, 2, 4, 5])
          (ex_world {''o/r_01/r_01_rec.mrc'', ''o/r_05/r_05_rec.mrc''}
             (Some [(0, Row 1 ''o/r_01/r_01_ali.mrc'' ''o/r_01/r_01_rec.mrc''),
                    (1, Row 5 ''o/r_05/r_05_ali.mrc'' ''o/r_05/r_05_rec.mrc'')]))) =
     Inr \<lparr>basis_folder = ''o'', rootname = ''r'', suffix = [],
          path_dict = [(1, ''o/r_01''), (2, ''o/r_02''), (4, ''o/r_04''), (5, ''o/r_05'')],
          recon_images = [(4, Row 5 ''o/r_05/r_05_ali.mrc'' ''o/r_05/r_05_rec.mrc'')],
          meta_out = [(0, Row 1 ''o/r_01/r_01_ali.mrc'' ''o/r_01/r_01_rec.mrc''),
                      (1, Row 5 ''o/r_05/r_05_ali.mrc'' ''o/r_05/r_05_rec.mrc'')],
          no_processes = False, process_list = [5], stdout = None\<rparr>"
  by (simp add: eval_defs upt_rec)

text \<open>
  Why they speak of the constructor when it returns: a stored frame with a repeated row
  before its last row loses a label when the repetitions are dropped, and the selection of
  the first pass raises.
\<close>

lemma gap_in_labels_raises:
  "fst (Recon_init [''ts''] (ex_params [1, 2, 3])
          (ex_world {''o/r_02/r_02_rec.mrc'', ''o/r_07/r_07_rec.mrc''}
             (Some [(0, Row 2 ''o/r_02/r_02_ali.mrc'' ''o/r_02/r_02_rec.mrc''),
                    (1, Row 2 ''o/r_02/r_02_ali.mrc'' ''o/r_02/r_02_rec.mrc''),
                    (2, Row 7 ''o/r_07/r_07_ali.mrc'' ''o/r_07/r_07_rec.mrc'')]))) =
     Inl IndexingError"
  by (simp add: eval_defs upt_rec)

end
